theory Spec2Isabelle
  imports Main "HOL-Library.Sublist"
begin

section \<open>Strings, paths and time stamps\<close>

text \<open>
  A CSV record is Go's \<^verbatim>\<open>[]string\<close>. A path is kept as the list of its elements, so
  that \<^verbatim>\<open>filepath.Join(dir, name)\<close> adds one element and \<^verbatim>\<open>filepath.Base\<close> reads the
  last one; the textual normalisation done by \<^verbatim>\<open>filepath.Clean\<close> has no counterpart on
  element lists. File names are byte strings.
\<close>

type_synonym row = "string list"
type_synonym path = "string list"

definition Join :: "path \<Rightarrow> string \<Rightarrow> path" where
  "Join dir elem = dir @ [elem]"

definition Base :: "path \<Rightarrow> string" where
  "Base p = (if p = [] then ''.'' else last p)"

text \<open>
  \<^verbatim>\<open>strings.ToLower\<close> on the ASCII range: \<^verbatim>\<open>'A'..'Z'\<close> are moved by \<^verbatim>\<open>'a' - 'A'\<close>. The
  program only compares the result's last four bytes with \<^verbatim>\<open>.csv\<close>, and no rune other
  than the ASCII letters themselves lowers to \<^verbatim>\<open>c\<close>, \<^verbatim>\<open>s\<close> or \<^verbatim>\<open>v\<close>.
\<close>

definition lower_char :: "char \<Rightarrow> char" where
  "lower_char c =
     (let n = (of_char c :: nat) in if 65 \<le> n \<and> n \<le> 90 then char_of (n + 32) else c)"

definition ToLower :: "string \<Rightarrow> string" where
  "ToLower s = map lower_char s"

text \<open>\<^verbatim>\<open>len(s) >= len(suffix) && s[len(s)-len(suffix):] == suffix\<close>\<close>

definition HasSuffix :: "string \<Rightarrow> string \<Rightarrow> bool" where
  "HasSuffix s suf = (length suf \<le> length s \<and> drop (length s - length suf) s = suf)"

definition TrimSuffix :: "string \<Rightarrow> string \<Rightarrow> string" where
  "TrimSuffix s suf = (if HasSuffix s suf then take (length s - length suf) s else s)"

text \<open>
  \<^verbatim>\<open>filepath.Ext\<close> scans from the end: it stops with the empty string at a path separator
  and returns the suffix that starts at the first dot it meets. \<open>ext_scan\<close> walks the
  reversed string and carries the bytes already passed.
\<close>

fun ext_scan :: "string \<Rightarrow> string \<Rightarrow> string" where
  "ext_scan [] acc = []"
| "ext_scan (c # cs) acc =
     (if c = CHR ''/'' then []
      else if c = CHR ''.'' then c # acc
      else ext_scan cs (c # acc))"

definition Ext :: "string \<Rightarrow> string" where
  "Ext p = ext_scan (rev p) []"

text \<open>
  The two layouts of \<^verbatim>\<open>time.Now().Format\<close> the program uses, \<^verbatim>\<open>20060102\<close> and
  \<^verbatim>\<open>20060102_150405\<close>. The fields of a time are Go's \<^verbatim>\<open>int\<close>s. Each field is written by
  \<^verbatim>\<open>appendInt\<close>: in decimal, with zeros in front up to the width (4 for the year, 2 for
  the others), and in full when it has more digits.
\<close>

record clock_time =
  t_year :: int
  t_month :: int
  t_day :: int
  t_hour :: int
  t_minute :: int
  t_second :: int

definition digit :: "int \<Rightarrow> char" where
  "digit n = char_of (48 + n mod 10)"

function decimal :: "int \<Rightarrow> string" where
  "decimal n = (if n < 10 then [digit n] else decimal (n div 10) @ [digit n])"
  by pat_completeness auto
termination
  by (relation "measure nat") auto

declare decimal.simps [simp del]

definition appendInt :: "int \<Rightarrow> nat \<Rightarrow> string" where
  "appendInt x width =
     (if x < 0 then ''-'' @ replicate (width - length (decimal (- x))) CHR ''0'' @ decimal (- x)
      else replicate (width - length (decimal x)) CHR ''0'' @ decimal x)"

definition Format_20060102 :: "clock_time \<Rightarrow> string" where
  "Format_20060102 t = appendInt (t_year t) 4 @ appendInt (t_month t) 2 @ appendInt (t_day t) 2"

definition Format_20060102_150405 :: "clock_time \<Rightarrow> string" where
  "Format_20060102_150405 t =
     Format_20060102 t @ ''_'' @
     appendInt (t_hour t) 2 @ appendInt (t_minute t) 2 @ appendInt (t_second t) 2"

section \<open>The file system, the log and the operating system's answers\<close>

datatype node = Dir | File "row list"

datatype walk_error = WalkErr path | FailedToWriteHeader | FailedToWriteRow

datatype error =
    CouldNotCreateOutputDir path
  | CouldNotCreateOutputFile path
  | ErrorDuringWalk walk_error
  | CouldNotCreateArchiveSubdir path
  | FailedToArchiveMergedFile
  | CouldNotReadDatin path

text \<open>The lines the program logs, one constructor for each \<^verbatim>\<open>log.Printf\<close> site.\<close>

datatype message =
    StartingWalk
  | ProcessingFile string
  | WarnCouldNotOpen path
  | WarnCouldNotRead path
  | InfoSkipping string
  | FinishedProcessing nat path
  | CreatedArchiveDir path
  | ArchivingMergedFile path
  | ArchivingSourceFiles
  | WarnFailedToArchive path
  | ArchivingComplete
  | FatalProcessingFailed error
  | FatalArchivingFailed error
  | ProcessCompleted

text \<open>
  What a run does, in order: the calls that touch the file system (with their outcome)
  and the log lines. The two call sites of \<^verbatim>\<open>writer.Write\<close> are kept apart.
\<close>

datatype event =
    Ev_MkdirAll path bool
  | Ev_Create path bool
  | Ev_Walk path
  | Ev_WriteHeader row bool
  | Ev_WriteRow row bool
  | Ev_Flush bool
  | Ev_Close path
  | Ev_Rename path path bool
  | Ev_ReadDir path bool
  | Logged message

record world =
  fs :: "path \<Rightarrow> node option"
  trace :: "event list"

text \<open>
  One call of the \<^verbatim>\<open>filepath.Walk\<close> callback: its arguments \<^verbatim>\<open>path\<close>, \<^verbatim>\<open>info\<close> and
  \<^verbatim>\<open>walkErr\<close>, and what \<^verbatim>\<open>os.Open\<close> and \<^verbatim>\<open>reader.ReadAll\<close> give for that path.
\<close>

datatype read_result = OpenFails | ParseFails | Parsed "row list"

record walk_entry =
  w_path :: path
  w_name :: string
  w_is_dir :: bool
  w_err :: bool
  w_read :: read_result

record dir_entry =
  d_name :: string
  d_is_dir :: bool

text \<open>
  The answers of the operating system and of the library: the clock at the two
  \<^verbatim>\<open>time.Now()\<close> calls, which calls fail, what the walk and \<^verbatim>\<open>os.ReadDir\<close> yield.
  \<open>write_fails k\<close> says that \<^verbatim>\<open>writer.Write\<close> returns an error when \<open>k\<close> records have
  been accepted; \<open>flush_fails\<close> that the buffered bytes cannot be written out at
  \<^verbatim>\<open>writer.Flush()\<close>; \<open>durable\<close> is the number of records that are in the file all the
  same when one of the two happens.
\<close>

record os_env =
  now_merge :: clock_time
  now_archive :: clock_time
  mkdir_fails :: "path \<Rightarrow> bool"
  create_fails :: "path \<Rightarrow> bool"
  walk_yield :: "walk_entry list"
  write_fails :: "nat \<Rightarrow> bool"
  flush_fails :: bool
  durable :: nat
  rename_fails :: "path \<Rightarrow> path \<Rightarrow> bool"
  readdir_yield :: "dir_entry list option"

definition logf :: "message \<Rightarrow> world \<Rightarrow> world" where
  "logf m w = w\<lparr>trace := trace w @ [Logged m]\<rparr>"

text \<open>\<^verbatim>\<open>os.MkdirAll\<close>: the directory and every missing ancestor come into being.\<close>

definition MkdirAll :: "os_env \<Rightarrow> path \<Rightarrow> world \<Rightarrow> bool \<times> world" where
  "MkdirAll env p w =
     (if mkdir_fails env p then (False, w\<lparr>trace := trace w @ [Ev_MkdirAll p False]\<rparr>)
      else (True, w\<lparr>fs := (\<lambda>q. if prefix q p \<and> fs w q = None then Some Dir else fs w q),
                     trace := trace w @ [Ev_MkdirAll p True]\<rparr>))"

text \<open>\<^verbatim>\<open>os.Create\<close>: creates the file, or truncates the one that is there.\<close>

definition Create :: "os_env \<Rightarrow> path \<Rightarrow> world \<Rightarrow> bool \<times> world" where
  "Create env p w =
     (if create_fails env p then (False, w\<lparr>trace := trace w @ [Ev_Create p False]\<rparr>)
      else (True, w\<lparr>fs := (fs w)(p \<mapsto> File []), trace := trace w @ [Ev_Create p True]\<rparr>))"

text \<open>\<^verbatim>\<open>os.Rename\<close>: fails when the source is missing; replaces the target otherwise.\<close>

definition Rename :: "os_env \<Rightarrow> path \<Rightarrow> path \<Rightarrow> world \<Rightarrow> bool \<times> world" where
  "Rename env old new w =
     (if rename_fails env old new \<or> fs w old = None
      then (False, w\<lparr>trace := trace w @ [Ev_Rename old new False]\<rparr>)
      else (True, w\<lparr>fs := ((fs w)(old := None))(new := fs w old),
                     trace := trace w @ [Ev_Rename old new True]\<rparr>))"

section \<open>processFiles\<close>

text \<open>
  The variables the walk callback captures: \<^verbatim>\<open>headerWritten\<close>, \<^verbatim>\<open>filesProcessed\<close> and the
  \<^verbatim>\<open>csv.Writer\<close>, which is the records it has accepted into its buffer and its sticky
  error; and the events of the walk so far.
\<close>

record merge_state =
  headerWritten :: bool
  filesProcessed :: nat
  buffered :: "row list"
  werr :: bool
  events :: "event list"

definition remark :: "message \<Rightarrow> merge_state \<Rightarrow> merge_state" where
  "remark m st = st\<lparr>events := events st @ [Logged m]\<rparr>"

definition writer_Write ::
  "os_env \<Rightarrow> (row \<Rightarrow> bool \<Rightarrow> event) \<Rightarrow> row \<Rightarrow> merge_state \<Rightarrow> bool \<times> merge_state" where
  "writer_Write env site r st =
     (if write_fails env (length (buffered st))
      then (False, st\<lparr>werr := True, events := events st @ [site r False]\<rparr>)
      else (True, st\<lparr>buffered := buffered st @ [r], events := events st @ [site r True]\<rparr>))"

text \<open>\<^verbatim>\<open>for i := 1; i < len(records); i++\<close>, over the records from index 1 on.\<close>

fun write_rows :: "os_env \<Rightarrow> string \<Rightarrow> row list \<Rightarrow> merge_state \<Rightarrow> bool \<times> merge_state" where
  "write_rows env ticker [] st = (True, st)"
| "write_rows env ticker (r # rs) st =
     (case writer_Write env Ev_WriteRow (r @ [ticker]) st of
        (False, st') \<Rightarrow> (False, st')
      | (True, st') \<Rightarrow> write_rows env ticker rs st')"

text \<open>The callback given to \<^verbatim>\<open>filepath.Walk\<close>; \<open>Some\<close> is the error it returns.\<close>

definition walkFn :: "os_env \<Rightarrow> walk_entry \<Rightarrow> merge_state \<Rightarrow> walk_error option \<times> merge_state" where
  "walkFn env e st =
     (if w_err e then (Some (WalkErr (w_path e)), st)
      else if w_is_dir e then (None, st)
      else if HasSuffix (ToLower (w_name e)) ''.csv'' then
        (let st1 = remark (ProcessingFile (w_name e)) st;
             ticker = TrimSuffix (w_name e) (Ext (w_name e))
         in case w_read e of
              OpenFails \<Rightarrow> (None, remark (WarnCouldNotOpen (w_path e)) st1)
            | ParseFails \<Rightarrow> (None, remark (WarnCouldNotRead (w_path e)) st1)
            | Parsed records \<Rightarrow>
                if length records < 2 then (None, remark (InfoSkipping (w_name e)) st1)
                else
                  (case (if \<not> headerWritten st1
                         then (case writer_Write env Ev_WriteHeader (records ! 0 @ [''tick_nm'']) st1 of
                                 (False, st2) \<Rightarrow> (False, st2)
                               | (True, st2) \<Rightarrow> (True, st2\<lparr>headerWritten := True\<rparr>))
                         else (True, st1)) of
                     (False, st2) \<Rightarrow> (Some FailedToWriteHeader, st2)
                   | (True, st2) \<Rightarrow>
                       (case write_rows env ticker (drop 1 records) st2 of
                          (False, st3) \<Rightarrow> (Some FailedToWriteRow, st3)
                        | (True, st3) \<Rightarrow>
                            (None, st3\<lparr>filesProcessed := filesProcessed st3 + 1\<rparr>))))
      else (None, st))"

text \<open>\<^verbatim>\<open>filepath.Walk\<close> stops at the first error the callback returns.\<close>

fun walk_loop :: "os_env \<Rightarrow> walk_entry list \<Rightarrow> merge_state \<Rightarrow> walk_error option \<times> merge_state" where
  "walk_loop env [] st = (None, st)"
| "walk_loop env (e # es) st =
     (case walkFn env e st of
        (Some err, st') \<Rightarrow> (Some err, st')
      | (None, st') \<Rightarrow> walk_loop env es st')"

text \<open>
  \<^verbatim>\<open>writer.Flush()\<close> returns nothing. The writer hands its bytes to the file whenever its
  buffer is full, during \<^verbatim>\<open>writer.Write\<close>, and the rest at the flush. When every write and
  the flush succeed, the file holds all the accepted records. When a write or the flush
  fails, it holds those that had reached it before: the first \<open>durable\<close> of them, a number
  the machine decides (none for an output that still sat in the buffer). The model
  settles the file's content here, at the deferred flush, when \<open>processFiles\<close> returns.
\<close>

definition writer_Flush :: "os_env \<Rightarrow> path \<Rightarrow> merge_state \<Rightarrow> world \<Rightarrow> world" where
  "writer_Flush env out st w =
     (if werr st \<or> flush_fails env
      then w\<lparr>fs := (fs w)(out \<mapsto> File (take (durable env) (buffered st))),
             trace := trace w @ [Ev_Flush False]\<rparr>
      else w\<lparr>fs := (fs w)(out \<mapsto> File (buffered st)), trace := trace w @ [Ev_Flush True]\<rparr>)"

definition Close :: "path \<Rightarrow> world \<Rightarrow> world" where
  "Close out w = w\<lparr>trace := trace w @ [Ev_Close out]\<rparr>"

text \<open>
  The two deferred calls, run last-in first-out when \<^verbatim>\<open>processFiles\<close> returns:
  \<^verbatim>\<open>writer.Flush()\<close>, then \<^verbatim>\<open>outF.Close()\<close>.
\<close>

definition deferred :: "os_env \<Rightarrow> path \<Rightarrow> merge_state \<Rightarrow> world \<Rightarrow> world" where
  "deferred env out st w = Close out (writer_Flush env out st w)"

definition processFiles :: "os_env \<Rightarrow> path \<Rightarrow> path \<Rightarrow> world \<Rightarrow> (error + path) \<times> world" where
  "processFiles env datinDir datoutDir w =
     (case MkdirAll env datoutDir w of
        (False, w1) \<Rightarrow> (Inl (CouldNotCreateOutputDir datoutDir), w1)
      | (True, w1) \<Rightarrow>
          (let dateStr = Format_20060102 (now_merge env);
               outputFile = Join datoutDir (''extract_'' @ dateStr @ ''.csv'')
           in case Create env outputFile w1 of
                (False, w2) \<Rightarrow> (Inl (CouldNotCreateOutputFile outputFile), w2)
              | (True, w2) \<Rightarrow>
                  (let st0 = \<lparr>headerWritten = False, filesProcessed = 0, buffered = [],
                              werr = False, events = [Logged StartingWalk, Ev_Walk datinDir]\<rparr>
                   in case walk_loop env (walk_yield env) st0 of
                        (Some err, st) \<Rightarrow>
                          (Inl (ErrorDuringWalk err),
                           deferred env outputFile st (w2\<lparr>trace := trace w2 @ events st\<rparr>))
                      | (None, st) \<Rightarrow>
                          (Inr outputFile,
                           deferred env outputFile st
                             (w2\<lparr>trace := trace w2 @ events st @
                                   [Logged (FinishedProcessing (filesProcessed st) outputFile)]\<rparr>)))))"

section \<open>archiveAndCleanup\<close>

text \<open>\<^verbatim>\<open>for _, file := range files\<close>: each entry that is not a directory is moved.\<close>

fun archive_files :: "os_env \<Rightarrow> path \<Rightarrow> path \<Rightarrow> dir_entry list \<Rightarrow> world \<Rightarrow> world" where
  "archive_files env archiveSubDir datinDir [] w = w"
| "archive_files env archiveSubDir datinDir (file # files) w =
     archive_files env archiveSubDir datinDir files
       (if \<not> d_is_dir file then
          (let oldPath = Join datinDir (d_name file);
               newPath = Join archiveSubDir (d_name file)
           in case Rename env oldPath newPath w of
                (False, w') \<Rightarrow> logf (WarnFailedToArchive oldPath) w'
              | (True, w') \<Rightarrow> w')
        else w)"

definition archiveAndCleanup ::
  "os_env \<Rightarrow> path \<Rightarrow> path \<Rightarrow> path \<Rightarrow> world \<Rightarrow> error option \<times> world" where
  "archiveAndCleanup env archDir mergedFilePath datinDir w =
     (let archiveSubDir = Join archDir (''archive_'' @ Format_20060102_150405 (now_archive env))
      in case MkdirAll env archiveSubDir w of
           (False, w1) \<Rightarrow> (Some (CouldNotCreateArchiveSubdir archiveSubDir), w1)
         | (True, w1) \<Rightarrow>
             (let w2 = logf (CreatedArchiveDir archiveSubDir) w1;
                  mergedFileName = Base mergedFilePath;
                  newMergedPath = Join archiveSubDir mergedFileName;
                  w3 = logf (ArchivingMergedFile newMergedPath) w2
              in case Rename env mergedFilePath newMergedPath w3 of
                   (False, w4) \<Rightarrow> (Some FailedToArchiveMergedFile, w4)
                 | (True, w4) \<Rightarrow>
                     (let w5 = logf ArchivingSourceFiles w4
                      in case readdir_yield env of
                           None \<Rightarrow>
                             (Some (CouldNotReadDatin datinDir),
                              w5\<lparr>trace := trace w5 @ [Ev_ReadDir datinDir False]\<rparr>)
                         | Some files \<Rightarrow>
                             (None,
                              logf ArchivingComplete
                                (archive_files env archiveSubDir datinDir files
                                   (w5\<lparr>trace := trace w5 @ [Ev_ReadDir datinDir True]\<rparr>))))))"

section \<open>main\<close>

text \<open>
  The part of \<^verbatim>\<open>main\<close> after the flags are checked and the logger is set up: the merge,
  then the archive if the merge returned no error. \<^verbatim>\<open>log.Fatalf\<close> logs and exits.
\<close>

datatype exit_status = Completed | Fatal error

definition main :: "os_env \<Rightarrow> path \<Rightarrow> path \<Rightarrow> path \<Rightarrow> world \<Rightarrow> exit_status \<times> world" where
  "main env datinDir datoutDir archDir w =
     (case processFiles env datinDir datoutDir w of
        (Inl err, w1) \<Rightarrow> (Fatal err, logf (FatalProcessingFailed err) w1)
      | (Inr outputFilePath, w1) \<Rightarrow>
          (case archiveAndCleanup env archDir outputFilePath datinDir w1 of
             (Some err, w2) \<Rightarrow> (Fatal err, logf (FatalArchivingFailed err) w2)
           | (None, w2) \<Rightarrow> (Completed, logf ProcessCompleted w2)))"

section \<open>The merged dataset, as the specification words it\<close>

text \<open>
  These definitions follow the specification's data model, to be compared with what
  \<open>processFiles\<close> computes. A source file is a non-directory entry whose name ends in the
  extension, case-insensitively; it contributes when it parses to at least two records.
\<close>

definition spec_source_file :: "walk_entry \<Rightarrow> bool" where
  "spec_source_file e = (\<not> w_is_dir e \<and> HasSuffix (ToLower (w_name e)) ''.csv'')"

fun spec_records :: "read_result \<Rightarrow> row list" where
  "spec_records (Parsed rs) = rs"
| "spec_records OpenFails = []"
| "spec_records ParseFails = []"

definition spec_contributes :: "walk_entry \<Rightarrow> bool" where
  "spec_contributes e = (spec_source_file e \<and> 2 \<le> length (spec_records (w_read e)))"

text \<open>The entity identifier: the file name without its last four bytes, the extension.\<close>

definition spec_entity_id :: "string \<Rightarrow> string" where
  "spec_entity_id name = take (length name - 4) name"

definition spec_data_rows :: "walk_entry \<Rightarrow> row list" where
  "spec_data_rows e =
     map (\<lambda>r. r @ [spec_entity_id (w_name e)]) (tl (spec_records (w_read e)))"

definition spec_header :: "walk_entry list \<Rightarrow> row list" where
  "spec_header es =
     (case filter spec_contributes es of
        [] \<Rightarrow> []
      | e # _ \<Rightarrow> [hd (spec_records (w_read e)) @ [''tick_nm'']])"

definition spec_merged_dataset :: "walk_entry list \<Rightarrow> row list" where
  "spec_merged_dataset es =
     spec_header es @ concat (map spec_data_rows (filter spec_contributes es))"

text \<open>
  A data row as the specification describes it: a record of some source file, other than
  its first, with one more field, which with the file's extension appended is exactly the
  file's name.
\<close>

definition spec_tagged_row :: "walk_entry list \<Rightarrow> row \<Rightarrow> bool" where
  "spec_tagged_row es row =
     (\<exists>e\<in>set es. \<exists>r\<in>set (tl (spec_records (w_read e))).
        \<not> w_is_dir e \<and> row = r @ [last row] \<and>
        w_name e = last row @ Ext (w_name e) \<and> ToLower (Ext (w_name e)) = ''.csv'')"

text \<open>What one call of the callback adds to the output when it returns no error.\<close>

definition spec_step_rows :: "bool \<Rightarrow> walk_entry \<Rightarrow> row list" where
  "spec_step_rows hw e =
     (if spec_contributes e
      then (if hw then [] else [hd (spec_records (w_read e)) @ [''tick_nm'']]) @ spec_data_rows e
      else [])"




section \<open>Names for the parts of a run\<close>

text \<open>The local variable \<^verbatim>\<open>outputFile\<close> of \<^verbatim>\<open>processFiles\<close>.\<close>

definition output_path :: "os_env \<Rightarrow> path \<Rightarrow> path" where
  "output_path env datoutDir =
     Join datoutDir (''extract_'' @ Format_20060102 (now_merge env) @ ''.csv'')"

text \<open>The local variable \<^verbatim>\<open>archiveSubDir\<close> of \<^verbatim>\<open>archiveAndCleanup\<close>.\<close>

definition archive_subdir :: "os_env \<Rightarrow> path \<Rightarrow> path" where
  "archive_subdir env archDir =
     Join archDir (''archive_'' @ Format_20060102_150405 (now_archive env))"

text \<open>The captured variables when the walk starts.\<close>

definition walk_init :: "path \<Rightarrow> merge_state" where
  "walk_init datinDir =
     \<lparr>headerWritten = False, filesProcessed = 0, buffered = [], werr = False,
      events = [Logged StartingWalk, Ev_Walk datinDir]\<rparr>"

text \<open>Two states of the walk that differ at most in the events recorded so far.\<close>

definition same_vars :: "merge_state \<Rightarrow> merge_state \<Rightarrow> bool" where
  "same_vars s t =
     (headerWritten s = headerWritten t \<and> filesProcessed s = filesProcessed t \<and>
      buffered s = buffered t \<and> werr s = werr t)"

text \<open>
  The records that the two call sites of \<^verbatim>\<open>writer.Write\<close> got accepted, the moves that were
  tried, and the calls of \<^verbatim>\<open>writer.Write\<close> that returned an error, as a trace records them.
\<close>

definition header_writes :: "event list \<Rightarrow> row list" where
  "header_writes evs =
     concat (map (\<lambda>ev. case ev of Ev_WriteHeader r ok \<Rightarrow> (if ok then [r] else []) | _ \<Rightarrow> []) evs)"

definition row_writes :: "event list \<Rightarrow> row list" where
  "row_writes evs =
     concat (map (\<lambda>ev. case ev of Ev_WriteRow r ok \<Rightarrow> (if ok then [r] else []) | _ \<Rightarrow> []) evs)"

definition renames :: "event list \<Rightarrow> (path \<times> path \<times> bool) list" where
  "renames evs =
     concat (map (\<lambda>ev. case ev of Ev_Rename a b ok \<Rightarrow> [(a, b, ok)] | _ \<Rightarrow> []) evs)"

definition failed_write :: "event \<Rightarrow> bool" where
  "failed_write ev =
     (case ev of Ev_WriteHeader r ok \<Rightarrow> \<not> ok | Ev_WriteRow r ok \<Rightarrow> \<not> ok | _ \<Rightarrow> False)"

text \<open>
  The events a merge can produce: no directory but the output root is asked for, no file
  but the output file is created or closed, nothing is renamed or listed.
\<close>

definition merge_stage_event :: "path \<Rightarrow> path \<Rightarrow> path \<Rightarrow> event \<Rightarrow> bool" where
  "merge_stage_event din dout out ev =
     (case ev of
        Ev_MkdirAll p ok \<Rightarrow> p = dout
      | Ev_Create p ok \<Rightarrow> p = out
      | Ev_Walk p \<Rightarrow> p = din
      | Ev_WriteHeader r ok \<Rightarrow> True
      | Ev_WriteRow r ok \<Rightarrow> True
      | Ev_Flush ok \<Rightarrow> True
      | Ev_Close p \<Rightarrow> p = out
      | Ev_Rename a b ok \<Rightarrow> False
      | Ev_ReadDir p ok \<Rightarrow> False
      | Logged m \<Rightarrow>
          (case m of
             StartingWalk \<Rightarrow> True
           | ProcessingFile n \<Rightarrow> True
           | WarnCouldNotOpen p \<Rightarrow> True
           | WarnCouldNotRead p \<Rightarrow> True
           | InfoSkipping n \<Rightarrow> True
           | FinishedProcessing n p \<Rightarrow> True
           | FatalProcessingFailed e \<Rightarrow> True
           | _ \<Rightarrow> False))"

text \<open>The file system once \<^verbatim>\<open>os.MkdirAll\<close> has succeeded.\<close>

definition after_mkdir :: "path \<Rightarrow> world \<Rightarrow> path \<Rightarrow> node option" where
  "after_mkdir p w = (\<lambda>q. if prefix q p \<and> fs w q = None then Some Dir else fs w q)"

text \<open>
  The world of \<^verbatim>\<open>archiveAndCleanup\<close> at the call of \<^verbatim>\<open>os.ReadDir\<close>: the archive
  subdirectory made and the merged file moved into it.
\<close>

definition merged_moved :: "os_env \<Rightarrow> path \<Rightarrow> path \<Rightarrow> world \<Rightarrow> world" where
  "merged_moved env arch merged w =
     w\<lparr>fs := ((after_mkdir (archive_subdir env arch) w)(merged := None))
               (Join (archive_subdir env arch) (Base merged) :=
                  after_mkdir (archive_subdir env arch) w merged),
       trace := trace w @
          [Ev_MkdirAll (archive_subdir env arch) True,
           Logged (CreatedArchiveDir (archive_subdir env arch)),
           Logged (ArchivingMergedFile (Join (archive_subdir env arch) (Base merged))),
           Ev_Rename merged (Join (archive_subdir env arch) (Base merged)) True,
           Logged ArchivingSourceFiles]\<rparr>"

section \<open>The specification's scenario\<close>

text \<open>
  The input root of the specification's concrete scenario, \<^verbatim>\<open>AAPL.csv\<close> and \<^verbatim>\<open>MSFT.csv\<close>
  (here with an upper-case extension), with two more files beside them: one that does
  not parse and one that holds a header only.
\<close>

definition aapl :: walk_entry where
  "aapl = \<lparr>w_path = [''in'', ''AAPL.csv''], w_name = ''AAPL.csv'', w_is_dir = False,
           w_err = False, w_read = Parsed [[''date'', ''price''], [''2020-01-01'', ''100'']]\<rparr>"

definition msft :: walk_entry where
  "msft = \<lparr>w_path = [''in'', ''MSFT.CSV''], w_name = ''MSFT.CSV'', w_is_dir = False,
           w_err = False, w_read = Parsed [[''date'', ''price''], [''2020-01-02'', ''200'']]\<rparr>"

definition garbled :: walk_entry where
  "garbled = \<lparr>w_path = [''in'', ''bad.csv''], w_name = ''bad.csv'', w_is_dir = False,
              w_err = False, w_read = ParseFails\<rparr>"

definition header_only :: walk_entry where
  "header_only = \<lparr>w_path = [''in'', ''new.csv''], w_name = ''new.csv'', w_is_dir = False,
                  w_err = False, w_read = Parsed [[''symbol'', ''close'']]\<rparr>"

definition march9 :: clock_time where
  "march9 = \<lparr>t_year = 2025, t_month = 3, t_day = 9, t_hour = 14, t_minute = 5, t_second = 59\<rparr>"

text \<open>A machine on which every call succeeds, walking and listing the given entries.\<close>

definition calm :: "walk_entry list \<Rightarrow> os_env" where
  "calm es =
     \<lparr>now_merge = march9, now_archive = march9,
      mkdir_fails = (\<lambda>p. False), create_fails = (\<lambda>p. False),
      walk_yield = es, write_fails = (\<lambda>k. False), flush_fails = False, durable = 0,
      rename_fails = (\<lambda>a b. False),
      readdir_yield = Some (map (\<lambda>e. \<lparr>d_name = w_name e, d_is_dir = w_is_dir e\<rparr>) es)\<rparr>"

text \<open>The file system before the run, with the three files that exist.\<close>

definition disk0 :: world where
  "disk0 =
     \<lparr>fs = [[''in''] \<mapsto> Dir,
            [''in'', ''AAPL.csv''] \<mapsto> File [[''date'', ''price''], [''2020-01-01'', ''100'']],
            [''in'', ''MSFT.CSV''] \<mapsto> File [[''date'', ''price''], [''2020-01-02'', ''200'']],
            [''in'', ''new.csv''] \<mapsto> File [[''symbol'', ''close'']]],
      trace = []\<rparr>"

text \<open>
  The same machine where \<^verbatim>\<open>AAPL.csv\<close> cannot be moved out of the input root, where nothing
  can be renamed at all, where the final flush fails, and where the writer refuses the
  third record handed to it.
\<close>

definition stubborn :: os_env where
  "stubborn = (calm [aapl, msft])\<lparr>rename_fails := (\<lambda>a b. a = [''in'', ''AAPL.csv''])\<rparr>"

definition frozen :: os_env where
  "frozen = (calm [aapl, msft])\<lparr>rename_fails := (\<lambda>a b. True)\<rparr>"

definition disk_full :: os_env where
  "disk_full = (calm [aapl])\<lparr>flush_fails := True\<rparr>"


text \<open>The file system and the log as a successful merge of the two files leaves them.\<close>

definition disk1 :: world where
  "disk1 = snd (processFiles (calm [aapl, msft]) [''in''] [''out''] disk0)"







section \<open>File names\<close>

lemma lower_char_dot: "lower_char c = CHR ''.'' \<longleftrightarrow> c = CHR ''.''"
  by (cases c) (auto simp add: lower_char_def char_of_def Let_def bit_Suc_0_iff split: if_splits)

lemma lower_char_c: "lower_char c = CHR ''c'' \<longleftrightarrow> c = CHR ''c'' \<or> c = CHR ''C''"
  by (cases c) (auto simp add: lower_char_def char_of_def Let_def bit_Suc_0_iff split: if_splits)

lemma lower_char_s: "lower_char c = CHR ''s'' \<longleftrightarrow> c = CHR ''s'' \<or> c = CHR ''S''"
  by (cases c) (auto simp add: lower_char_def char_of_def Let_def bit_Suc_0_iff split: if_splits)

lemma lower_char_v: "lower_char c = CHR ''v'' \<longleftrightarrow> c = CHR ''v'' \<or> c = CHR ''V''"
  by (cases c) (auto simp add: lower_char_def char_of_def Let_def bit_Suc_0_iff split: if_splits)

lemma csv_name_split:
  assumes "HasSuffix (ToLower name) ''.csv''"
  shows "\<exists>stem x y z. name = stem @ [CHR ''.'', x, y, z] \<and> x \<in> {CHR ''c'', CHR ''C''}
           \<and> y \<in> {CHR ''s'', CHR ''S''} \<and> z \<in> {CHR ''v'', CHR ''V''}"
proof -
  from assms have dr: "drop (length name - 4) (map lower_char name) = ''.csv''"
    by (simp add: HasSuffix_def ToLower_def eval_nat_numeral)
  define stem where "stem = take (length name - 4) name"
  define tl4 where "tl4 = drop (length name - 4) name"
  have nm: "name = stem @ tl4" by (simp add: stem_def tl4_def)
  have "map lower_char tl4 = ''.csv''"
    using dr by (simp add: tl4_def drop_map)
  then obtain a x y z where t: "tl4 = [a, x, y, z]" and
    l: "lower_char a = CHR ''.''" "lower_char x = CHR ''c''"
       "lower_char y = CHR ''s''" "lower_char z = CHR ''v''"
    by (auto simp add: map_eq_Cons_conv)
  from l show ?thesis
    using nm t by (auto simp add: lower_char_dot lower_char_c lower_char_s lower_char_v)
qed

lemma Ext_csv:
  assumes "x \<in> {CHR ''c'', CHR ''C''}" "y \<in> {CHR ''s'', CHR ''S''}" "z \<in> {CHR ''v'', CHR ''V''}"
  shows "Ext (stem @ [CHR ''.'', x, y, z]) = [CHR ''.'', x, y, z]"
  using assms by (auto simp add: Ext_def)

lemma TrimSuffix_append: "TrimSuffix (stem @ suf) suf = stem"
  by (simp add: TrimSuffix_def HasSuffix_def)

text \<open>
  For a name that passes the \<^verbatim>\<open>.csv\<close> test, \<^verbatim>\<open>filepath.Ext\<close> is its last four bytes, the
  ticker is the rest, and the ticker holds everything before the last dot.
\<close>

lemma ticker_of_csv_name:
  assumes "HasSuffix (ToLower name) ''.csv''"
  shows "TrimSuffix name (Ext name) = spec_entity_id name"
    and "name = spec_entity_id name @ Ext name"
    and "ToLower (Ext name) = ''.csv''"
    and "hd (Ext name) = CHR ''.''"
proof -
  from csv_name_split [OF assms] obtain stem x y z where
    nm: "name = stem @ [CHR ''.'', x, y, z]" and
    x: "x \<in> {CHR ''c'', CHR ''C''}" and y: "y \<in> {CHR ''s'', CHR ''S''}" and
    z: "z \<in> {CHR ''v'', CHR ''V''}"
    by blast
  have e: "Ext name = [CHR ''.'', x, y, z]"
    unfolding nm by (rule Ext_csv [OF x y z])
  have s: "spec_entity_id name = stem"
    by (simp add: spec_entity_id_def nm)
  show "TrimSuffix name (Ext name) = spec_entity_id name"
    unfolding e s unfolding nm by (rule TrimSuffix_append)
  show "name = spec_entity_id name @ Ext name"
    unfolding e s by (rule nm)
  show "ToLower (Ext name) = ''.csv''"
    unfolding e using x y z
    by (auto simp add: ToLower_def lower_char_dot lower_char_c lower_char_s lower_char_v)
  show "hd (Ext name) = CHR ''.''"
    unfolding e by simp
qed

section \<open>The walk\<close>

lemma writer_Write_ok:
  "writer_Write env site r st = (True, st') \<Longrightarrow>
     st' = st\<lparr>buffered := buffered st @ [r], events := events st @ [site r True]\<rparr>"
  by (auto simp add: writer_Write_def split: if_splits)

lemma writer_Write_fail:
  "writer_Write env site r st = (False, st') \<Longrightarrow>
     st' = st\<lparr>werr := True, events := events st @ [site r False]\<rparr>"
  by (auto simp add: writer_Write_def split: if_splits)

lemma write_rows_ok:
  "write_rows env t rs st = (True, st') \<Longrightarrow>
     st' = st\<lparr>buffered := buffered st @ map (\<lambda>r. r @ [t]) rs,
              events := events st @ map (\<lambda>r. Ev_WriteRow (r @ [t]) True) rs\<rparr>"
proof (induction rs arbitrary: st)
  case Nil
  then show ?case by simp
next
  case (Cons r rs)
  from Cons.prems obtain st1 where
    w: "writer_Write env Ev_WriteRow (r @ [t]) st = (True, st1)" and
    r: "write_rows env t rs st1 = (True, st')"
    by (auto split: prod.splits bool.splits)
  show ?case
    unfolding Cons.IH [OF r] writer_Write_ok [OF w] by simp
qed

lemma write_rows_fail:
  "write_rows env t rs st = (False, st') \<Longrightarrow>
     werr st' \<and> headerWritten st' = headerWritten st \<and> filesProcessed st' = filesProcessed st
     \<and> header_writes (events st') = header_writes (events st)"
proof (induction rs arbitrary: st)
  case Nil
  then show ?case by simp
next
  case (Cons r rs)
  show ?case
  proof (cases "writer_Write env Ev_WriteRow (r @ [t]) st")
    case (Pair ok st1)
    show ?thesis
    proof (cases ok)
      case True
      with Pair have w: "writer_Write env Ev_WriteRow (r @ [t]) st = (True, st1)" by simp
      with Cons.prems have "write_rows env t rs st1 = (False, st')" by simp
      from Cons.IH [OF this] writer_Write_ok [OF w]
      show ?thesis by (simp add: header_writes_def)
    next
      case False
      with Pair have w: "writer_Write env Ev_WriteRow (r @ [t]) st = (False, st1)" by simp
      with Cons.prems have "st' = st1" by simp
      with writer_Write_fail [OF w]
      show ?thesis by (simp add: header_writes_def)
    qed
  qed
qed

lemma nth0_is_hd: "\<not> length xs < 2 \<Longrightarrow> xs ! 0 = hd xs"
  by (cases xs) simp_all

lemmas walkFn_unfold = walkFn_def Let_def remark_def spec_step_rows_def spec_contributes_def
  spec_source_file_def spec_data_rows_def header_writes_def row_writes_def nth0_is_hd drop_Suc
  ticker_of_csv_name(1)

lemma walkFn_ok:
  assumes "walkFn env e st = (None, st')"
  shows "\<not> w_err e"
    and "buffered st' = buffered st @ spec_step_rows (headerWritten st) e"
    and "headerWritten st' = (headerWritten st \<or> spec_contributes e)"
    and "filesProcessed st' = filesProcessed st + (if spec_contributes e then 1 else 0)"
    and "werr st' = werr st"
    and "header_writes (events st') = header_writes (events st) @
           (if spec_contributes e \<and> \<not> headerWritten st
            then [hd (spec_records (w_read e)) @ [''tick_nm'']] else [])"
    and "row_writes (events st') = row_writes (events st) @
           (if spec_contributes e then spec_data_rows e else [])"
  using assms
  by (auto simp add: walkFn_unfold comp_def
      split: if_splits read_result.splits prod.splits bool.splits
      dest!: write_rows_ok writer_Write_ok)


lemma spec_header_Cons:
  "spec_header (e # es) =
     (if spec_contributes e then [hd (spec_records (w_read e)) @ [''tick_nm'']] else spec_header es)"
  by (simp add: spec_header_def)

lemma walk_loop_ok:
  "walk_loop env es st = (None, st') \<Longrightarrow>
     (\<forall>e\<in>set es. \<not> w_err e) \<and>
     buffered st' = buffered st @ (if headerWritten st then [] else spec_header es) @
                    concat (map spec_data_rows (filter spec_contributes es)) \<and>
     headerWritten st' = (headerWritten st \<or> filter spec_contributes es \<noteq> []) \<and>
     filesProcessed st' = filesProcessed st + length (filter spec_contributes es) \<and>
     werr st' = werr st \<and>
     header_writes (events st') =
       header_writes (events st) @ (if headerWritten st then [] else spec_header es) \<and>
     row_writes (events st') =
       row_writes (events st) @ concat (map spec_data_rows (filter spec_contributes es))"
proof (induction es arbitrary: st)
  case Nil
  then show ?case by (simp add: spec_header_def)
next
  case (Cons e es)
  from Cons.prems obtain st1 where
    f: "walkFn env e st = (None, st1)" and l: "walk_loop env es st1 = (None, st')"
    by (auto split: prod.splits option.splits)
  note s = walkFn_ok [OF f]
  from Cons.IH [OF l] s show ?case
    by (auto simp add: spec_header_Cons spec_step_rows_def)
qed

section \<open>A merge that returns no error\<close>

lemma processFiles_InrD:
  assumes "processFiles env din dout w = (Inr p, w')"
  obtains st where "\<not> mkdir_fails env dout" and "p = output_path env dout"
    and "\<not> create_fails env p"
    and "walk_loop env (walk_yield env) (walk_init din) = (None, st)"
    and "w' = deferred env p st
           (w\<lparr>fs := (\<lambda>q. if prefix q dout \<and> fs w q = None then Some Dir else fs w q)(p \<mapsto> File []),
              trace := trace w @ [Ev_MkdirAll dout True, Ev_Create p True] @ events st @
                    [Logged (FinishedProcessing (filesProcessed st) p)]\<rparr>)"
  using assms
  by (auto simp add: processFiles_def MkdirAll_def Create_def Let_def output_path_def
      walk_init_def split: if_splits prod.splits option.splits)

lemma processFiles_Inr:
  assumes "processFiles env din dout w = (Inr p, w')"
  shows "p = output_path env dout"
    and "\<not> mkdir_fails env dout" and "\<not> create_fails env p"
    and "\<forall>e\<in>set (walk_yield env). \<not> w_err e"
    and "fs w' p = Some (File (if flush_fails env
                               then take (durable env) (spec_merged_dataset (walk_yield env))
                               else spec_merged_dataset (walk_yield env)))"
    and "\<forall>q. q \<noteq> p \<longrightarrow>
           fs w' q = (if prefix q dout \<and> fs w q = None then Some Dir else fs w q)"
    and "header_writes (trace w') = header_writes (trace w) @ spec_header (walk_yield env)"
    and "\<exists>evs. trace w' = trace w @ [Ev_MkdirAll dout True, Ev_Create p True] @ evs @
           [Logged (FinishedProcessing (length (filter spec_contributes (walk_yield env))) p),
            Ev_Flush (\<not> flush_fails env), Ev_Close p]"
    and "row_writes (trace w') = row_writes (trace w) @
           concat (map spec_data_rows (filter spec_contributes (walk_yield env)))"
proof -
  from assms obtain st where
    m: "\<not> mkdir_fails env dout" and p: "p = output_path env dout" and
    c: "\<not> create_fails env p" and
    l: "walk_loop env (walk_yield env) (walk_init din) = (None, st)" and
    w': "w' = deferred env p st
           (w\<lparr>fs := (\<lambda>q. if prefix q dout \<and> fs w q = None then Some Dir else fs w q)(p \<mapsto> File []),
              trace := trace w @ [Ev_MkdirAll dout True, Ev_Create p True] @ events st @
                    [Logged (FinishedProcessing (filesProcessed st) p)]\<rparr>)"
    by (rule processFiles_InrD)
  note ok = walk_loop_ok [OF l]
  have i: "headerWritten (walk_init din) = False" "buffered (walk_init din) = []"
    "werr (walk_init din) = False" "filesProcessed (walk_init din) = 0"
    "header_writes (events (walk_init din)) = []" "row_writes (events (walk_init din)) = []"
    by (simp_all add: walk_init_def header_writes_def row_writes_def)
  from ok i have b: "buffered st = spec_merged_dataset (walk_yield env)"
    and fp: "filesProcessed st = length (filter spec_contributes (walk_yield env))"
    and we: "\<not> werr st"
    and hw: "header_writes (events st) = spec_header (walk_yield env)"
    and rw: "row_writes (events st) =
               concat (map spec_data_rows (filter spec_contributes (walk_yield env)))"
    by (simp_all add: spec_merged_dataset_def)
  show "p = output_path env dout" by (rule p)
  show "\<not> mkdir_fails env dout" by (rule m)
  show "\<not> create_fails env p" by (rule c)
  from ok show "\<forall>e\<in>set (walk_yield env). \<not> w_err e" by blast
  show "fs w' p = Some (File (if flush_fails env
                               then take (durable env) (spec_merged_dataset (walk_yield env))
                               else spec_merged_dataset (walk_yield env)))"
    unfolding w' using we b by (simp add: deferred_def Close_def writer_Flush_def)
  show "\<forall>q. q \<noteq> p \<longrightarrow>
           fs w' q = (if prefix q dout \<and> fs w q = None then Some Dir else fs w q)"
    unfolding w' by (simp add: deferred_def Close_def writer_Flush_def)
  show "header_writes (trace w') = header_writes (trace w) @ spec_header (walk_yield env)"
    unfolding w' using hw by (simp add: deferred_def Close_def writer_Flush_def header_writes_def)
  show "\<exists>evs. trace w' = trace w @ [Ev_MkdirAll dout True, Ev_Create p True] @ evs @
           [Logged (FinishedProcessing (length (filter spec_contributes (walk_yield env))) p),
            Ev_Flush (\<not> flush_fails env), Ev_Close p]"
    unfolding w' using we fp by (auto simp add: deferred_def Close_def writer_Flush_def)
  show "row_writes (trace w') = row_writes (trace w) @
           concat (map spec_data_rows (filter spec_contributes (walk_yield env)))"
    unfolding w' using rw by (simp add: deferred_def Close_def writer_Flush_def row_writes_def)
qed

section \<open>Any run of the walk\<close>

lemma header_writes_append [simp]:
  "header_writes (xs @ ys) = header_writes xs @ header_writes ys"
  by (simp add: header_writes_def)

lemma row_writes_append [simp]:
  "row_writes (xs @ ys) = row_writes xs @ row_writes ys"
  by (simp add: row_writes_def)

lemma writes_simps [simp]:
  "header_writes [] = []" "row_writes [] = []"
  "header_writes (Ev_WriteHeader r ok # evs) = (if ok then [r] else []) @ header_writes evs"
  "header_writes (Ev_WriteRow r ok # evs) = header_writes evs"
  "header_writes (Logged m # evs) = header_writes evs"
  "header_writes (Ev_MkdirAll p ok # evs) = header_writes evs"
  "header_writes (Ev_Create p ok # evs) = header_writes evs"
  "header_writes (Ev_Walk p # evs) = header_writes evs"
  "header_writes (Ev_Flush ok # evs) = header_writes evs"
  "header_writes (Ev_Close p # evs) = header_writes evs"
  "header_writes (Ev_Rename p q ok # evs) = header_writes evs"
  "header_writes (Ev_ReadDir p ok # evs) = header_writes evs"
  "row_writes (Ev_WriteRow r ok # evs) = (if ok then [r] else []) @ row_writes evs"
  "row_writes (Ev_WriteHeader r ok # evs) = row_writes evs"
  "row_writes (Logged m # evs) = row_writes evs"
  "row_writes (Ev_MkdirAll p ok # evs) = row_writes evs"
  "row_writes (Ev_Create p ok # evs) = row_writes evs"
  "row_writes (Ev_Walk p # evs) = row_writes evs"
  "row_writes (Ev_Flush ok # evs) = row_writes evs"
  "row_writes (Ev_Close p # evs) = row_writes evs"
  "row_writes (Ev_Rename p q ok # evs) = row_writes evs"
  "row_writes (Ev_ReadDir p ok # evs) = row_writes evs"
  by (simp_all add: header_writes_def row_writes_def)

lemma write_rows_any:
  "write_rows env t rs st = (ok, st') \<Longrightarrow>
     headerWritten st' = headerWritten st \<and>
     header_writes (events st') = header_writes (events st) \<and>
     (\<exists>k. row_writes (events st') = row_writes (events st) @ take k (map (\<lambda>r. r @ [t]) rs))"
proof (induction rs arbitrary: st)
  case Nil
  then show ?case by auto
next
  case (Cons r rs)
  show ?case
  proof (cases "writer_Write env Ev_WriteRow (r @ [t]) st")
    case (Pair b st1)
    show ?thesis
    proof (cases b)
      case True
      with Pair have w: "writer_Write env Ev_WriteRow (r @ [t]) st = (True, st1)" by simp
      with Cons.prems have "write_rows env t rs st1 = (ok, st')" by simp
      from Cons.IH [OF this] obtain k where
        h: "headerWritten st' = headerWritten st1"
           "header_writes (events st') = header_writes (events st1)" and
        k: "row_writes (events st') = row_writes (events st1) @ take k (map (\<lambda>r. r @ [t]) rs)"
        by blast
      from k writer_Write_ok [OF w]
      have "row_writes (events st') =
              row_writes (events st) @ take (Suc k) (map (\<lambda>r. r @ [t]) (r # rs))"
        by simp
      with h writer_Write_ok [OF w] show ?thesis
        by (intro conjI exI [of _ "Suc k"]) simp_all
    next
      case False
      with Pair have w: "writer_Write env Ev_WriteRow (r @ [t]) st = (False, st1)" by simp
      with Cons.prems have "st' = st1" by simp
      with writer_Write_fail [OF w] show ?thesis
        by (intro conjI exI [of _ 0]) simp_all
    qed
  qed
qed


lemma walkFn_skips:
  assumes "walkFn env e st = (r, st')" and "\<not> spec_contributes e"
  shows "headerWritten st' = headerWritten st"
    and "header_writes (events st') = header_writes (events st)"
    and "row_writes (events st') = row_writes (events st)"
    and "buffered st' = buffered st" and "werr st' = werr st"
    and "filesProcessed st' = filesProcessed st"
  using assms
  by (auto simp add: walkFn_def Let_def remark_def spec_contributes_def spec_source_file_def
      split: if_splits read_result.splits)

lemma walkFn_contributes:
  assumes "spec_contributes e" and "\<not> w_err e"
  shows "walkFn env e st =
     (case (if \<not> headerWritten st
            then (case writer_Write env Ev_WriteHeader (hd (spec_records (w_read e)) @ [''tick_nm''])
                         (remark (ProcessingFile (w_name e)) st) of
                    (False, st2) \<Rightarrow> (False, st2)
                  | (True, st2) \<Rightarrow> (True, st2\<lparr>headerWritten := True\<rparr>))
            else (True, remark (ProcessingFile (w_name e)) st)) of
        (False, st2) \<Rightarrow> (Some FailedToWriteHeader, st2)
      | (True, st2) \<Rightarrow>
          (case write_rows env (spec_entity_id (w_name e)) (tl (spec_records (w_read e))) st2 of
             (False, st3) \<Rightarrow> (Some FailedToWriteRow, st3)
           | (True, st3) \<Rightarrow> (None, st3\<lparr>filesProcessed := filesProcessed st3 + 1\<rparr>)))"
proof -
  from assms obtain recs where
    a: "\<not> w_is_dir e" "HasSuffix (ToLower (w_name e)) ''.csv''" "w_read e = Parsed recs"
       "\<not> length recs < 2"
    by (cases "w_read e") (auto simp add: spec_contributes_def spec_source_file_def)
  show ?thesis
    using assms(2) a
    by (auto simp add: walkFn_def Let_def ticker_of_csv_name(1) nth0_is_hd drop_Suc remark_def
        split: prod.splits bool.splits)
qed

lemma walkFn_any:
  assumes "walkFn env e st = (r, st')"
  shows "headerWritten st \<longrightarrow> headerWritten st'"
    and "\<exists>hs. header_writes (events st') = header_writes (events st) @ hs \<and>
           (hs = [] \<or> (\<not> headerWritten st \<and> spec_contributes e \<and> headerWritten st' \<and>
                       hs = [hd (spec_records (w_read e)) @ [''tick_nm'']]))"
    and "\<exists>rs. row_writes (events st') = row_writes (events st) @ rs \<and>
           (rs = [] \<or> (spec_contributes e \<and> set rs \<subseteq> set (spec_data_rows e)))"
proof -
  have "(headerWritten st \<longrightarrow> headerWritten st') \<and>
    (\<exists>hs. header_writes (events st') = header_writes (events st) @ hs \<and>
           (hs = [] \<or> (\<not> headerWritten st \<and> spec_contributes e \<and> headerWritten st' \<and>
                       hs = [hd (spec_records (w_read e)) @ [''tick_nm'']]))) \<and>
    (\<exists>rs. row_writes (events st') = row_writes (events st) @ rs \<and>
           (rs = [] \<or> (spec_contributes e \<and> set rs \<subseteq> set (spec_data_rows e))))"
  proof (cases "spec_contributes e \<and> \<not> w_err e")
    case False
    then have "(\<not> spec_contributes e) \<or> w_err e" by blast
    then show ?thesis
    proof
      assume "\<not> spec_contributes e"
      from walkFn_skips [OF assms this] show ?thesis by simp
    next
      assume "w_err e"
      with assms have "st' = st" by (simp add: walkFn_def)
      then show ?thesis by simp
    qed
  next
    case True
    then have c: "spec_contributes e" and ne: "\<not> w_err e" by simp_all
    define hdr where "hdr = hd (spec_records (w_read e)) @ [''tick_nm'']"
    define st1 where "st1 = remark (ProcessingFile (w_name e)) st"
    have st1: "headerWritten st1 = headerWritten st"
      "header_writes (events st1) = header_writes (events st)"
      "row_writes (events st1) = row_writes (events st)"
      by (simp_all add: st1_def remark_def)
    note eq = assms [unfolded walkFn_contributes [OF c ne], folded hdr_def st1_def]
    have rows: "\<exists>rs. row_writes (events s') = row_writes (events s) @ rs \<and>
           (rs = [] \<or> (spec_contributes e \<and> set rs \<subseteq> set (spec_data_rows e)))"
      if "\<exists>k. row_writes (events s') = row_writes (events s) @
                 take k (map (\<lambda>r. r @ [spec_entity_id (w_name e)]) (tl (spec_records (w_read e))))"
      for s s'
    proof -
      from that obtain k where
        "row_writes (events s') = row_writes (events s) @ take k (spec_data_rows e)"
        by (auto simp add: spec_data_rows_def)
      with c show ?thesis
        by (intro exI [of _ "take k (spec_data_rows e)"]) (auto dest: in_set_takeD)
    qed
    show ?thesis
    proof (cases "headerWritten st")
      case True
      with eq obtain b st3 where
        wr: "write_rows env (spec_entity_id (w_name e)) (tl (spec_records (w_read e))) st1 = (b, st3)"
        and s': "events st' = events st3" "headerWritten st' = headerWritten st3"
        by (cases "write_rows env (spec_entity_id (w_name e)) (tl (spec_records (w_read e))) st1")
           (auto split: bool.splits)
      from write_rows_any [OF wr] rows [of st3 st1] st1 s' True show ?thesis
        by auto
    next
      case nhw: False
      show ?thesis
      proof (cases "writer_Write env Ev_WriteHeader hdr st1")
        case (Pair b st2)
        show ?thesis
        proof (cases b)
          case False
          with Pair have w: "writer_Write env Ev_WriteHeader hdr st1 = (False, st2)" by simp
          with eq nhw have "st' = st2" by simp
          with writer_Write_fail [OF w] st1 nhw show ?thesis by simp
        next
          case True
          with Pair have w: "writer_Write env Ev_WriteHeader hdr st1 = (True, st2)" by simp
          define st2' where "st2' = st2\<lparr>headerWritten := True\<rparr>"
          from writer_Write_ok [OF w] st1 have st2':
            "headerWritten st2'" "header_writes (events st2') = header_writes (events st) @ [hdr]"
            "row_writes (events st2') = row_writes (events st)"
            by (simp_all add: st2'_def)
          from eq nhw w obtain b3 st3 where
            wr: "write_rows env (spec_entity_id (w_name e)) (tl (spec_records (w_read e))) st2' = (b3, st3)"
            and s': "events st' = events st3" "headerWritten st' = headerWritten st3"
            by (cases "write_rows env (spec_entity_id (w_name e)) (tl (spec_records (w_read e))) st2'")
               (auto simp add: st2'_def split: bool.splits)
          from write_rows_any [OF wr] rows [of st3 st2'] st2' s' nhw c show ?thesis
            by (auto simp add: hdr_def)
        qed
      qed
    qed
  qed
  then show "headerWritten st \<longrightarrow> headerWritten st'"
    and "\<exists>hs. header_writes (events st') = header_writes (events st) @ hs \<and>
           (hs = [] \<or> (\<not> headerWritten st \<and> spec_contributes e \<and> headerWritten st' \<and>
                       hs = [hd (spec_records (w_read e)) @ [''tick_nm'']]))"
    and "\<exists>rs. row_writes (events st') = row_writes (events st) @ rs \<and>
           (rs = [] \<or> (spec_contributes e \<and> set rs \<subseteq> set (spec_data_rows e)))"
    by blast+
qed

lemma walk_loop_any:
  "walk_loop env es st = (r, st') \<Longrightarrow>
     (headerWritten st \<longrightarrow> headerWritten st') \<and>
     (\<exists>hs. header_writes (events st') = header_writes (events st) @ hs \<and>
           (hs = [] \<or> (\<not> headerWritten st \<and> hs = spec_header es))) \<and>
     (\<exists>rs. row_writes (events st') = row_writes (events st) @ rs \<and>
           set rs \<subseteq> (\<Union>e\<in>set (filter spec_contributes es). set (spec_data_rows e)))"
proof (induction es arbitrary: st)
  case Nil
  then show ?case by simp
next
  case (Cons e es)
  obtain r1 st1 where f: "walkFn env e st = (r1, st1)" by (cases "walkFn env e st")
  from walkFn_any [OF f] obtain hs1 rs1 where
    h1: "headerWritten st \<longrightarrow> headerWritten st1" and
    hs1: "header_writes (events st1) = header_writes (events st) @ hs1"
         "hs1 = [] \<or> (\<not> headerWritten st \<and> spec_contributes e \<and> headerWritten st1 \<and>
                       hs1 = [hd (spec_records (w_read e)) @ [''tick_nm'']])" and
    rs1: "row_writes (events st1) = row_writes (events st) @ rs1"
         "rs1 = [] \<or> (spec_contributes e \<and> set rs1 \<subseteq> set (spec_data_rows e))"
    by blast
  show ?case
  proof (cases r1)
    case (Some err)
    with f Cons.prems have "st' = st1" by simp
    with h1 hs1 rs1 show ?thesis
      by (auto simp add: spec_header_Cons)
  next
    case None
    with f Cons.prems have l: "walk_loop env es st1 = (r, st')" by simp
    from Cons.IH [OF l] obtain hs2 rs2 where
      h2: "headerWritten st1 \<longrightarrow> headerWritten st'" and
      hs2: "header_writes (events st') = header_writes (events st1) @ hs2"
           "hs2 = [] \<or> (\<not> headerWritten st1 \<and> hs2 = spec_header es)" and
      rs2: "row_writes (events st') = row_writes (events st1) @ rs2"
           "set rs2 \<subseteq> (\<Union>e\<in>set (filter spec_contributes es). set (spec_data_rows e))"
      by blast
    note ok = walkFn_ok [OF f [unfolded None]]
    have a: "headerWritten st \<longrightarrow> headerWritten st'"
      using h1 h2 by blast
    have b: "header_writes (events st') = header_writes (events st) @ (hs1 @ hs2)"
      using hs1(1) hs2(1) by simp
    have c: "hs1 @ hs2 = [] \<or> (\<not> headerWritten st \<and> hs1 @ hs2 = spec_header (e # es))"
      using hs1(2) hs2(2) ok(3) by (auto simp add: spec_header_Cons)
    have d: "row_writes (events st') = row_writes (events st) @ (rs1 @ rs2)"
      using rs1(1) rs2(1) by simp
    have e: "set (rs1 @ rs2) \<subseteq>
               (\<Union>e\<in>set (filter spec_contributes (e # es)). set (spec_data_rows e))"
      using rs1(2) rs2(2) by auto
    from a b c d e show ?thesis by blast
  qed
qed

text \<open>The events of a whole run of \<open>processFiles\<close>, whatever it returns.\<close>

lemma processFiles_trace:
  "\<exists>evs. trace (snd (processFiles env din dout w)) = trace w @ evs \<and>
     (header_writes evs = [] \<or> header_writes evs = spec_header (walk_yield env)) \<and>
     set (row_writes evs) \<subseteq>
       (\<Union>e\<in>set (filter spec_contributes (walk_yield env)). set (spec_data_rows e))"
proof -
  obtain r st where l: "walk_loop env (walk_yield env) (walk_init din) = (r, st)"
    by (cases "walk_loop env (walk_yield env) (walk_init din)")
  from walk_loop_any [OF l] have
    h: "header_writes (events st) = [] \<or> header_writes (events st) = spec_header (walk_yield env)"
    and rw: "set (row_writes (events st)) \<subseteq>
       (\<Union>e\<in>set (filter spec_contributes (walk_yield env)). set (spec_data_rows e))"
    by (auto simp add: walk_init_def)
  from l have l': "walk_loop env (walk_yield env)
          \<lparr>headerWritten = False, filesProcessed = 0, buffered = [], werr = False,
             events = [Logged StartingWalk, Ev_Walk din]\<rparr> = (r, st)"
    by (simp add: walk_init_def)
  show ?thesis
    using h rw l'
    by (cases r)
      (auto simp add: processFiles_def MkdirAll_def Create_def Let_def deferred_def Close_def
        writer_Flush_def)
qed

section \<open>Entries that cannot be read\<close>

lemma same_vars_refl [simp]: "same_vars s s"
  by (simp add: same_vars_def)

lemma writer_Write_sim:
  assumes "same_vars s t"
  shows "fst (writer_Write env site r s) = fst (writer_Write env site r t) \<and>
         same_vars (snd (writer_Write env site r s)) (snd (writer_Write env site r t))"
  using assms by (simp add: writer_Write_def same_vars_def)

lemma write_rows_sim:
  "same_vars s t \<Longrightarrow>
     fst (write_rows env tk rs s) = fst (write_rows env tk rs t) \<and>
     same_vars (snd (write_rows env tk rs s)) (snd (write_rows env tk rs t))"
proof (induction rs arbitrary: s t)
  case Nil
  then show ?case by simp
next
  case (Cons r rs)
  obtain b1 s1 where ws: "writer_Write env Ev_WriteRow (r @ [tk]) s = (b1, s1)"
    by (cases "writer_Write env Ev_WriteRow (r @ [tk]) s")
  obtain b2 t1 where wt: "writer_Write env Ev_WriteRow (r @ [tk]) t = (b2, t1)"
    by (cases "writer_Write env Ev_WriteRow (r @ [tk]) t")
  from writer_Write_sim [OF Cons.prems, of env Ev_WriteRow "r @ [tk]"] ws wt
  have b: "b1 = b2" and s1: "same_vars s1 t1" by simp_all
  show ?case
  proof (cases b1)
    case True
    with ws wt b Cons.IH [OF s1] show ?thesis by simp
  next
    case False
    with ws wt b s1 show ?thesis by simp
  qed
qed

lemma walkFn_sim:
  assumes "same_vars s t"
  shows "fst (walkFn env e s) = fst (walkFn env e t) \<and>
         same_vars (snd (walkFn env e s)) (snd (walkFn env e t))"
proof (cases "spec_contributes e \<and> \<not> w_err e")
  case False
  then have "(\<not> spec_contributes e \<and> \<not> w_err e) \<or> w_err e" by blast
  then show ?thesis
  proof
    assume "w_err e"
    with assms show ?thesis by (simp add: walkFn_def)
  next
    assume a: "\<not> spec_contributes e \<and> \<not> w_err e"
    then have "fst (walkFn env e s) = None" "fst (walkFn env e t) = None"
      by (auto simp add: walkFn_def Let_def remark_def spec_contributes_def spec_source_file_def
          split: read_result.splits)
    moreover from a walkFn_skips [of env e s "fst (walkFn env e s)" "snd (walkFn env e s)"]
      walkFn_skips [of env e t "fst (walkFn env e t)" "snd (walkFn env e t)"] assms
    have "same_vars (snd (walkFn env e s)) (snd (walkFn env e t))"
      by (simp add: same_vars_def)
    ultimately show ?thesis by simp
  qed
next
  case True
  then have c: "spec_contributes e" and ne: "\<not> w_err e" by simp_all
  define hdr where "hdr = hd (spec_records (w_read e)) @ [''tick_nm'']"
  define s1 where "s1 = remark (ProcessingFile (w_name e)) s"
  define t1 where "t1 = remark (ProcessingFile (w_name e)) t"
  have st1: "same_vars s1 t1"
    using assms by (simp add: s1_def t1_def remark_def same_vars_def)
  have hw: "headerWritten s = headerWritten t"
    using assms by (simp add: same_vars_def)
  define tk where "tk = spec_entity_id (w_name e)"
  define rs where "rs = tl (spec_records (w_read e))"
  have rows: "fst (case write_rows env tk rs a of
             (False, st3) \<Rightarrow> (Some FailedToWriteRow, st3)
           | (True, st3) \<Rightarrow> (None, st3\<lparr>filesProcessed := filesProcessed st3 + 1\<rparr>)) =
        fst (case write_rows env tk rs b of
             (False, st3) \<Rightarrow> (Some FailedToWriteRow, st3)
           | (True, st3) \<Rightarrow> (None, st3\<lparr>filesProcessed := filesProcessed st3 + 1\<rparr>)) \<and>
     same_vars (snd (case write_rows env tk rs a of
             (False, st3) \<Rightarrow> (Some FailedToWriteRow, st3)
           | (True, st3) \<Rightarrow> (None, st3\<lparr>filesProcessed := filesProcessed st3 + 1\<rparr>)))
        (snd (case write_rows env tk rs b of
             (False, st3) \<Rightarrow> (Some FailedToWriteRow, st3)
           | (True, st3) \<Rightarrow> (None, st3\<lparr>filesProcessed := filesProcessed st3 + 1\<rparr>)))"
    if "same_vars a b" for a b
    using write_rows_sim [OF that, of env tk rs]
    by (cases "write_rows env tk rs a"; cases "write_rows env tk rs b")
       (auto simp add: same_vars_def split: bool.splits)
  show ?thesis
  proof (cases "headerWritten s")
    case True
    with hw have "headerWritten t" by simp
    with True rows [OF st1] show ?thesis
      unfolding walkFn_contributes [OF c ne]
      by (simp add: s1_def t1_def tk_def rs_def)
  next
    case False
    with hw have nt: "\<not> headerWritten t" by simp
    obtain b1 s2 where ws: "writer_Write env Ev_WriteHeader hdr s1 = (b1, s2)"
      by (cases "writer_Write env Ev_WriteHeader hdr s1")
    obtain b2 t2 where wt: "writer_Write env Ev_WriteHeader hdr t1 = (b2, t2)"
      by (cases "writer_Write env Ev_WriteHeader hdr t1")
    from writer_Write_sim [OF st1, of env Ev_WriteHeader hdr] ws wt
    have b: "b1 = b2" and s2: "same_vars s2 t2" by simp_all
    show ?thesis
    proof (cases b1)
      case True
      from s2 have "same_vars (s2\<lparr>headerWritten := True\<rparr>) (t2\<lparr>headerWritten := True\<rparr>)"
        by (simp add: same_vars_def)
      from rows [OF this] True False nt b ws wt show ?thesis
        unfolding walkFn_contributes [OF c ne]
        by (simp add: s1_def [symmetric] t1_def [symmetric] tk_def rs_def hdr_def [symmetric])
    next
      case b1f: False
      with False nt b ws wt s2 show ?thesis
        unfolding walkFn_contributes [OF c ne]
        by (simp add: s1_def [symmetric] t1_def [symmetric] hdr_def [symmetric])
    qed
  qed
qed

lemma walk_loop_sim:
  "same_vars s t \<Longrightarrow>
     fst (walk_loop env es s) = fst (walk_loop env es t) \<and>
     same_vars (snd (walk_loop env es s)) (snd (walk_loop env es t))"
proof (induction es arbitrary: s t)
  case Nil
  then show ?case by simp
next
  case (Cons e es)
  obtain r1 s1 where fs: "walkFn env e s = (r1, s1)" by (cases "walkFn env e s")
  obtain r2 t1 where ft: "walkFn env e t = (r2, t1)" by (cases "walkFn env e t")
  from walkFn_sim [OF Cons.prems, of env e] fs ft
  have r: "r1 = r2" and s1: "same_vars s1 t1" by simp_all
  show ?case
  proof (cases r1)
    case None
    with fs ft r Cons.IH [OF s1] show ?thesis by simp
  next
    case (Some err)
    with r have "r2 = Some err" by simp
    with Some fs ft s1 show ?thesis by simp
  qed
qed

lemma walk_loop_append:
  "walk_loop env (xs @ ys) st =
     (case walk_loop env xs st of
        (Some err, st') \<Rightarrow> (Some err, st')
      | (None, st') \<Rightarrow> walk_loop env ys st')"
  by (induction xs arbitrary: st) (auto split: prod.splits option.splits)


lemma write_rows_env:
  "write_fails env' = write_fails env \<Longrightarrow> write_rows env' tk rs st = write_rows env tk rs st"
  by (induction rs arbitrary: st) (simp_all add: writer_Write_def)

lemma walkFn_env:
  assumes "write_fails env' = write_fails env"
  shows "walkFn env' e st = walkFn env e st"
proof -
  have a: "writer_Write env' = writer_Write env"
    by (intro ext) (simp add: writer_Write_def assms)
  have b: "write_rows env' = write_rows env"
    by (intro ext) (rule write_rows_env [OF assms])
  show ?thesis
    unfolding walkFn_def a b ..
qed

lemma walk_loop_env:
  "write_fails env' = write_fails env \<Longrightarrow> walk_loop env' es st = walk_loop env es st"
  by (induction es arbitrary: st)
     (simp_all add: walkFn_env [of env' env] split: prod.splits option.splits)

lemma walkFn_unreadable:
  assumes "\<not> w_err e" "\<not> w_is_dir e" "HasSuffix (ToLower (w_name e)) ''.csv''"
    "w_read e = OpenFails \<or> w_read e = ParseFails"
  shows "walkFn env e st =
     (None, st\<lparr>events := events st @
        [Logged (ProcessingFile (w_name e)),
         Logged (if w_read e = OpenFails then WarnCouldNotOpen (w_path e)
                 else WarnCouldNotRead (w_path e))]\<rparr>)"
  using assms by (auto simp add: walkFn_def Let_def remark_def)

lemma walk_loop_drop_unreadable:
  assumes "\<not> w_err e" "\<not> w_is_dir e" "HasSuffix (ToLower (w_name e)) ''.csv''"
    "w_read e = OpenFails \<or> w_read e = ParseFails"
  shows "fst (walk_loop env (xs @ e # ys) st) = fst (walk_loop env (xs @ ys) st) \<and>
         same_vars (snd (walk_loop env (xs @ e # ys) st)) (snd (walk_loop env (xs @ ys) st))"
proof (cases "walk_loop env xs st")
  case (Pair r st1)
  show ?thesis
  proof (cases r)
    case (Some err)
    with Pair show ?thesis by (simp add: walk_loop_append)
  next
    case None
    define st2 where "st2 = st1\<lparr>events := events st1 @
        [Logged (ProcessingFile (w_name e)),
         Logged (if w_read e = OpenFails then WarnCouldNotOpen (w_path e)
                 else WarnCouldNotRead (w_path e))]\<rparr>"
    have "same_vars st2 st1" by (simp add: st2_def same_vars_def)
    from walk_loop_sim [OF this, of env ys] Pair None walkFn_unreadable [OF assms, of env st1]
    show ?thesis
      by (simp add: walk_loop_append st2_def)
  qed
qed

text \<open>\<open>processFiles\<close> once the directory and the file are there, in terms of the walk.\<close>

lemma processFiles_walk:
  assumes "\<not> mkdir_fails env dout" and "\<not> create_fails env (output_path env dout)"
    and "walk_loop env (walk_yield env) (walk_init din) = (r, st)"
  shows "processFiles env din dout w =
     ((case r of Some err \<Rightarrow> Inl (ErrorDuringWalk err) | None \<Rightarrow> Inr (output_path env dout)),
      deferred env (output_path env dout) st
        (w\<lparr>fs := (\<lambda>q. if prefix q dout \<and> fs w q = None then Some Dir else fs w q)
                   (output_path env dout \<mapsto> File []),
           trace := trace w @ [Ev_MkdirAll dout True, Ev_Create (output_path env dout) True] @
                    events st @
                    (case r of Some err \<Rightarrow> []
                     | None \<Rightarrow> [Logged (FinishedProcessing (filesProcessed st)
                                          (output_path env dout))])\<rparr>))"
  using assms
  by (cases r)
     (simp_all add: processFiles_def MkdirAll_def Create_def Let_def output_path_def walk_init_def)

lemma processFiles_no_dir:
  assumes "mkdir_fails env dout"
  shows "processFiles env din dout w =
     (Inl (CouldNotCreateOutputDir dout), w\<lparr>trace := trace w @ [Ev_MkdirAll dout False]\<rparr>)"
  using assms by (simp add: processFiles_def MkdirAll_def)

lemma processFiles_no_file:
  assumes "\<not> mkdir_fails env dout" and "create_fails env (output_path env dout)"
  shows "processFiles env din dout w =
     (Inl (CouldNotCreateOutputFile (output_path env dout)),
      w\<lparr>fs := (\<lambda>q. if prefix q dout \<and> fs w q = None then Some Dir else fs w q),
        trace := trace w @ [Ev_MkdirAll dout True, Ev_Create (output_path env dout) False]\<rparr>)"
  using assms
  by (simp add: processFiles_def MkdirAll_def Create_def Let_def output_path_def)

lemma processFiles_drop_unreadable:
  assumes "\<not> w_err e" "\<not> w_is_dir e" "HasSuffix (ToLower (w_name e)) ''.csv''"
    "w_read e = OpenFails \<or> w_read e = ParseFails"
  shows "fst (processFiles (env\<lparr>walk_yield := xs @ e # ys\<rparr>) din dout w) =
         fst (processFiles (env\<lparr>walk_yield := xs @ ys\<rparr>) din dout w) \<and>
         fs (snd (processFiles (env\<lparr>walk_yield := xs @ e # ys\<rparr>) din dout w)) =
         fs (snd (processFiles (env\<lparr>walk_yield := xs @ ys\<rparr>) din dout w))"
proof -
  define envA where "envA = env\<lparr>walk_yield := xs @ e # ys\<rparr>"
  define envB where "envB = env\<lparr>walk_yield := xs @ ys\<rparr>"
  have same: "mkdir_fails envA = mkdir_fails envB" "create_fails envA = create_fails envB"
    "output_path envA dout = output_path envB dout" "flush_fails envA = flush_fails envB"
    "durable envA = durable envB"
    "walk_yield envA = xs @ e # ys" "walk_yield envB = xs @ ys"
    by (simp_all add: envA_def envB_def output_path_def)
  have wf: "write_fails envA = write_fails env" "write_fails envB = write_fails env"
    by (simp_all add: envA_def envB_def)
  obtain r1 st1 where la: "walk_loop envA (walk_yield envA) (walk_init din) = (r1, st1)"
    by (cases "walk_loop envA (walk_yield envA) (walk_init din)")
  obtain r2 st2 where lb: "walk_loop envB (walk_yield envB) (walk_init din) = (r2, st2)"
    by (cases "walk_loop envB (walk_yield envB) (walk_init din)")
  from la lb walk_loop_drop_unreadable [OF assms, of env xs ys "walk_init din"]
  have r: "r1 = r2" and sv: "same_vars st1 st2"
    by (simp_all add: same walk_loop_env [OF wf(1)] walk_loop_env [OF wf(2)])
  have "fst (processFiles envA din dout w) = fst (processFiles envB din dout w) \<and>
        fs (snd (processFiles envA din dout w)) = fs (snd (processFiles envB din dout w))"
  proof (cases "mkdir_fails envB dout")
    case True
    then show ?thesis by (simp add: processFiles_no_dir same)
  next
    case m: False
    show ?thesis
    proof (cases "create_fails envB (output_path envB dout)")
      case True
      with m show ?thesis by (simp add: processFiles_no_file same)
    next
      case c: False
      from m c have ma: "\<not> mkdir_fails envA dout" "\<not> create_fails envA (output_path envA dout)"
        by (simp_all add: same)
      show ?thesis
        unfolding processFiles_walk [OF ma la] processFiles_walk [OF m c lb]
        using r sv
        by (cases r2) (simp_all add: same deferred_def Close_def writer_Flush_def same_vars_def)
    qed
  qed
  then show ?thesis by (simp add: envA_def envB_def)
qed

lemma length_spec_data_rows:
  "length (concat (map spec_data_rows es)) =
     sum_list (map (\<lambda>e. length (spec_records (w_read e)) - 1) es)"
  by (induction es) (simp_all add: spec_data_rows_def)

lemma length_spec_header:
  "length (spec_header es) = (if filter spec_contributes es = [] then 0 else 1)"
  by (simp add: spec_header_def split: list.splits)

lemma fst_processFiles:
  "fst (processFiles env din dout w) = r \<Longrightarrow>
     processFiles env din dout w = (r, snd (processFiles env din dout w))"
  by (cases "processFiles env din dout w") simp

lemma spec_data_rows_tagged:
  assumes "e \<in> set es" and "spec_contributes e" and "row \<in> set (spec_data_rows e)"
  shows "spec_tagged_row es row"
proof -
  from assms(3) obtain r where r: "r \<in> set (tl (spec_records (w_read e)))"
    and row: "row = r @ [spec_entity_id (w_name e)]"
    by (auto simp add: spec_data_rows_def)
  from assms(2) have c: "\<not> w_is_dir e" "HasSuffix (ToLower (w_name e)) ''.csv''"
    by (simp_all add: spec_contributes_def spec_source_file_def)
  from ticker_of_csv_name(2,3) [OF c(2)] row
  have "w_name e = last row @ Ext (w_name e)" "ToLower (Ext (w_name e)) = ''.csv''"
    "row = r @ [last row]"
    by simp_all
  with assms(1) r c(1) show ?thesis
    unfolding spec_tagged_row_def by blast
qed

section \<open>The output file\<close>
















text \<open>A year of five digits is written in full, as Go does.\<close>

lemma Format_20060102_long_year:
  "Format_20060102 (march9\<lparr>t_year := 12025\<rparr>) = ''120250309''"
  by code_simp

section \<open>The archive\<close>

lemma renames_append [simp]: "renames (xs @ ys) = renames xs @ renames ys"
  by (simp add: renames_def)

lemma renames_simps [simp]:
  "renames [] = []"
  "renames (Ev_Rename a b ok # evs) = (a, b, ok) # renames evs"
  "renames (Logged m # evs) = renames evs"
  "renames (Ev_MkdirAll p ok # evs) = renames evs"
  "renames (Ev_Create p ok # evs) = renames evs"
  "renames (Ev_Walk p # evs) = renames evs"
  "renames (Ev_WriteHeader r ok # evs) = renames evs"
  "renames (Ev_WriteRow r ok # evs) = renames evs"
  "renames (Ev_Flush ok # evs) = renames evs"
  "renames (Ev_Close p # evs) = renames evs"
  "renames (Ev_ReadDir p ok # evs) = renames evs"
  by (simp_all add: renames_def)

text \<open>One turn of the loop over the directory entries.\<close>

lemma archive_files_step:
  "archive_files env sub din (f # files) w =
     archive_files env sub din files
       (if d_is_dir f then w
        else if rename_fails env (Join din (d_name f)) (Join sub (d_name f)) \<or>
                fs w (Join din (d_name f)) = None
        then w\<lparr>trace := trace w @
                 [Ev_Rename (Join din (d_name f)) (Join sub (d_name f)) False,
                  Logged (WarnFailedToArchive (Join din (d_name f)))]\<rparr>
        else w\<lparr>fs := ((fs w)(Join din (d_name f) := None))
                        (Join sub (d_name f) := fs w (Join din (d_name f))),
               trace := trace w @
                 [Ev_Rename (Join din (d_name f)) (Join sub (d_name f)) True]\<rparr>)"
  by (simp add: Rename_def logf_def Let_def)

text \<open>Every entry that is not a directory is tried, in the order of the listing.\<close>

lemma archive_files_renames:
  "map (\<lambda>(a, b, ok). (a, b)) (renames (trace (archive_files env sub din files w))) =
     map (\<lambda>(a, b, ok). (a, b)) (renames (trace w)) @
     map (\<lambda>f. (Join din (d_name f), Join sub (d_name f))) (filter (\<lambda>f. \<not> d_is_dir f) files)"
proof (induction files arbitrary: w)
  case Nil
  then show ?case by simp
next
  case (Cons f files)
  show ?case
    unfolding archive_files_step Cons.IH by simp
qed

lemma archive_files_trace_mono:
  "\<exists>evs. trace (archive_files env sub din files w) = trace w @ evs"
proof (induction files arbitrary: w)
  case Nil
  then show ?case by simp
next
  case (Cons f files)
  define w1 where "w1 =
       (if d_is_dir f then w
        else if rename_fails env (Join din (d_name f)) (Join sub (d_name f)) \<or>
                fs w (Join din (d_name f)) = None
        then w\<lparr>trace := trace w @
                 [Ev_Rename (Join din (d_name f)) (Join sub (d_name f)) False,
                  Logged (WarnFailedToArchive (Join din (d_name f)))]\<rparr>
        else w\<lparr>fs := ((fs w)(Join din (d_name f) := None))
                        (Join sub (d_name f) := fs w (Join din (d_name f))),
               trace := trace w @
                 [Ev_Rename (Join din (d_name f)) (Join sub (d_name f)) True]\<rparr>)"
  have "\<exists>evs1. trace w1 = trace w @ evs1"
    by (simp add: w1_def)
  then obtain evs1 where e1: "trace w1 = trace w @ evs1" ..
  from Cons.IH [of w1] obtain evs2 where
    e2: "trace (archive_files env sub din files w1) = trace w1 @ evs2" ..
  have "archive_files env sub din (f # files) w = archive_files env sub din files w1"
    unfolding archive_files_step w1_def ..
  with e1 e2 show ?case by simp
qed


lemma Join_eq [simp]: "Join d n = Join d' n' \<longleftrightarrow> d = d' \<and> n = n'"
  by (simp add: Join_def)

text \<open>An entry whose move fails is where it was when the loop ends, and is warned about.\<close>

lemma archive_files_failed_stays:
  assumes "rename_fails env (Join din n) (Join sub n)"
  shows "fs (archive_files env sub din files w) (Join din n) = fs w (Join din n)"
proof (induction files arbitrary: w)
  case Nil
  then show ?case by simp
next
  case (Cons f files)
  show ?case
    unfolding archive_files_step Cons.IH using assms by auto
qed

lemma archive_files_failed_warns:
  assumes "f \<in> set files" and "\<not> d_is_dir f"
    and "rename_fails env (Join din (d_name f)) (Join sub (d_name f))"
  shows "Logged (WarnFailedToArchive (Join din (d_name f))) \<in>
           set (trace (archive_files env sub din files w))"
  using assms(1)
proof (induction files arbitrary: w)
  case Nil
  then show ?case by simp
next
  case (Cons g files)
  show ?case
  proof (cases "g = f")
    case True
    define w1 where "w1 = w\<lparr>trace := trace w @
                 [Ev_Rename (Join din (d_name f)) (Join sub (d_name f)) False,
                  Logged (WarnFailedToArchive (Join din (d_name f)))]\<rparr>"
    from archive_files_trace_mono [of env sub din files w1] obtain evs where
      "trace (archive_files env sub din files w1) = trace w1 @ evs" ..
    then have "Logged (WarnFailedToArchive (Join din (d_name f))) \<in>
                 set (trace (archive_files env sub din files w1))"
      by (simp add: w1_def)
    moreover have "archive_files env sub din (g # files) w = archive_files env sub din files w1"
      unfolding archive_files_step w1_def using True assms(2,3) by simp
    ultimately show ?thesis by simp
  next
    case False
    with Cons.prems have "f \<in> set files" by simp
    from Cons.IH [OF this] show ?thesis
      unfolding archive_files_step .
  qed
qed

text \<open>The loop leaves alone every path that is neither a source nor a target of a move.\<close>

lemma archive_files_frame:
  assumes "\<forall>f\<in>set files. q \<noteq> Join din (d_name f) \<and> q \<noteq> Join sub (d_name f)"
  shows "fs (archive_files env sub din files w) q = fs w q"
  using assms
proof (induction files arbitrary: w)
  case Nil
  then show ?case by simp
next
  case (Cons f files)
  from Cons.prems have "\<forall>f\<in>set files. q \<noteq> Join din (d_name f) \<and> q \<noteq> Join sub (d_name f)"
    and "q \<noteq> Join din (d_name f)" "q \<noteq> Join sub (d_name f)"
    by simp_all
  then show ?case
    unfolding archive_files_step Cons.IH [OF \<open>\<forall>f\<in>set files. _\<close>] by simp
qed

text \<open>\<open>archiveAndCleanup\<close>, case by case.\<close>

lemma archive_no_subdir:
  assumes "mkdir_fails env (archive_subdir env arch)"
  shows "archiveAndCleanup env arch merged din w =
     (Some (CouldNotCreateArchiveSubdir (archive_subdir env arch)),
      w\<lparr>trace := trace w @ [Ev_MkdirAll (archive_subdir env arch) False]\<rparr>)"
  using assms by (simp add: archiveAndCleanup_def archive_subdir_def MkdirAll_def Let_def)

lemma archive_merged_stuck:
  assumes "\<not> mkdir_fails env (archive_subdir env arch)"
    and "rename_fails env merged (Join (archive_subdir env arch) (Base merged)) \<or>
         after_mkdir (archive_subdir env arch) w merged = None"
  shows "archiveAndCleanup env arch merged din w =
     (Some FailedToArchiveMergedFile,
      w\<lparr>fs := after_mkdir (archive_subdir env arch) w,
        trace := trace w @
          [Ev_MkdirAll (archive_subdir env arch) True,
           Logged (CreatedArchiveDir (archive_subdir env arch)),
           Logged (ArchivingMergedFile (Join (archive_subdir env arch) (Base merged))),
           Ev_Rename merged (Join (archive_subdir env arch) (Base merged)) False]\<rparr>)"
  using assms
  by (auto simp add: archiveAndCleanup_def archive_subdir_def MkdirAll_def Let_def Rename_def
      logf_def after_mkdir_def)

lemma archive_merged_moved:
  assumes "\<not> mkdir_fails env (archive_subdir env arch)"
    and "\<not> rename_fails env merged (Join (archive_subdir env arch) (Base merged))"
    and "after_mkdir (archive_subdir env arch) w merged \<noteq> None"
  shows "archiveAndCleanup env arch merged din w =
     (case readdir_yield env of
        None \<Rightarrow> (Some (CouldNotReadDatin din),
                  (merged_moved env arch merged w)
                    \<lparr>trace := trace (merged_moved env arch merged w) @ [Ev_ReadDir din False]\<rparr>)
      | Some files \<Rightarrow>
          (None, logf ArchivingComplete
                   (archive_files env (archive_subdir env arch) din files
                      ((merged_moved env arch merged w)
                         \<lparr>trace := trace (merged_moved env arch merged w) @
                                     [Ev_ReadDir din True]\<rparr>))))"
  using assms
  by (auto simp add: archiveAndCleanup_def archive_subdir_def MkdirAll_def Let_def Rename_def
      logf_def after_mkdir_def merged_moved_def split: option.splits)

lemma after_mkdir_keeps: "fs w q \<noteq> None \<Longrightarrow> after_mkdir p w q = fs w q"
  by (simp add: after_mkdir_def)

text \<open>An entry whose move succeeds is in the archive subdirectory when the loop ends.\<close>

lemma archive_files_moves:
  assumes "distinct (map d_name files)" and "f \<in> set files" and "\<not> d_is_dir f"
    and "\<not> rename_fails env (Join din (d_name f)) (Join sub (d_name f))"
    and "fs w (Join din (d_name f)) \<noteq> None"
  shows "fs (archive_files env sub din files w) (Join sub (d_name f)) = fs w (Join din (d_name f)) \<and>
         (din \<noteq> sub \<longrightarrow> fs (archive_files env sub din files w) (Join din (d_name f)) = None)"
  using assms(1,2,5)
proof (induction files arbitrary: w)
  case Nil
  then show ?case by simp
next
  case (Cons g gs)
  show ?case
  proof (cases "g = f")
    case True
    with Cons.prems(1) have "d_name f \<notin> d_name ` set gs" by simp
    then have "\<forall>h\<in>set gs. d_name h \<noteq> d_name f" by (metis imageI)
    then have fr: "\<forall>h\<in>set gs. Join sub (d_name f) \<noteq> Join din (d_name h) \<and>
                            Join sub (d_name f) \<noteq> Join sub (d_name h)"
      and fr': "\<forall>h\<in>set gs. Join din (d_name f) \<noteq> Join din (d_name h) \<and>
                            Join din (d_name f) \<noteq> Join sub (d_name h)"
      by auto
    show ?thesis
      unfolding archive_files_step archive_files_frame [OF fr] archive_files_frame [OF fr']
      using True assms(3,4) Cons.prems(3) by auto
  next
    case False
    with Cons.prems(1,2) have f: "f \<in> set gs" and d: "distinct (map d_name gs)"
      by simp_all
    from Cons.prems(1) have "d_name g \<notin> d_name ` set gs" by simp
    with f have n: "d_name g \<noteq> d_name f" by (metis imageI)
    define w1 where "w1 =
       (if d_is_dir g then w
        else if rename_fails env (Join din (d_name g)) (Join sub (d_name g)) \<or>
                fs w (Join din (d_name g)) = None
        then w\<lparr>trace := trace w @
                 [Ev_Rename (Join din (d_name g)) (Join sub (d_name g)) False,
                  Logged (WarnFailedToArchive (Join din (d_name g)))]\<rparr>
        else w\<lparr>fs := ((fs w)(Join din (d_name g) := None))
                        (Join sub (d_name g) := fs w (Join din (d_name g))),
               trace := trace w @
                 [Ev_Rename (Join din (d_name g)) (Join sub (d_name g)) True]\<rparr>)"
    have k: "fs w1 (Join din (d_name f)) = fs w (Join din (d_name f))"
      using n by (simp add: w1_def)
    with Cons.prems(3) have "fs w1 (Join din (d_name f)) \<noteq> None" by simp
    from Cons.IH [OF d f this] k show ?thesis
      unfolding archive_files_step w1_def by simp
  qed
qed

text \<open>
  An entry that is not there when the loop starts is not there when it ends, and is
  warned about: its move fails.
\<close>

lemma archive_files_missing_stays:
  assumes "fs w (Join din n) = None"
  shows "fs (archive_files env sub din files w) (Join din n) = None"
  using assms
proof (induction files arbitrary: w)
  case Nil
  then show ?case by simp
next
  case (Cons g gs)
  show ?case
    unfolding archive_files_step
    by (rule Cons.IH) (use Cons.prems in auto)
qed

lemma archive_files_missing_warns:
  assumes "f \<in> set files" and "\<not> d_is_dir f" and "fs w (Join din (d_name f)) = None"
  shows "Logged (WarnFailedToArchive (Join din (d_name f))) \<in>
           set (trace (archive_files env sub din files w))"
  using assms(1,3)
proof (induction files arbitrary: w)
  case Nil
  then show ?case by simp
next
  case (Cons g gs)
  show ?case
  proof (cases "g = f")
    case True
    define w1 where "w1 = w\<lparr>trace := trace w @
                 [Ev_Rename (Join din (d_name f)) (Join sub (d_name f)) False,
                  Logged (WarnFailedToArchive (Join din (d_name f)))]\<rparr>"
    from archive_files_trace_mono [of env sub din gs w1] obtain evs where
      "trace (archive_files env sub din gs w1) = trace w1 @ evs" ..
    then have "Logged (WarnFailedToArchive (Join din (d_name f))) \<in>
                 set (trace (archive_files env sub din gs w1))"
      by (simp add: w1_def)
    moreover have "archive_files env sub din (g # gs) w = archive_files env sub din gs w1"
      unfolding archive_files_step w1_def using True assms(2) Cons.prems(2) by simp
    ultimately show ?thesis by simp
  next
    case False
    with Cons.prems have f: "f \<in> set gs" by simp
    show ?thesis
      unfolding archive_files_step
      by (rule Cons.IH [OF f]) (use Cons.prems(2) in auto)
  qed
qed

section \<open>The two stages\<close>



lemma merge_stage_event_simps [simp]:
  "merge_stage_event din dout out (Ev_MkdirAll p ok) \<longleftrightarrow> p = dout"
  "merge_stage_event din dout out (Ev_Create p ok) \<longleftrightarrow> p = out"
  "merge_stage_event din dout out (Ev_Walk p) \<longleftrightarrow> p = din"
  "merge_stage_event din dout out (Ev_WriteHeader r ok)"
  "merge_stage_event din dout out (Ev_WriteRow r ok)"
  "merge_stage_event din dout out (Ev_Flush ok)"
  "merge_stage_event din dout out (Ev_Close p) \<longleftrightarrow> p = out"
  "\<not> merge_stage_event din dout out (Ev_Rename a b ok)"
  "\<not> merge_stage_event din dout out (Ev_ReadDir p ok)"
  "merge_stage_event din dout out (Logged StartingWalk)"
  "merge_stage_event din dout out (Logged (ProcessingFile n))"
  "merge_stage_event din dout out (Logged (WarnCouldNotOpen p))"
  "merge_stage_event din dout out (Logged (WarnCouldNotRead p))"
  "merge_stage_event din dout out (Logged (InfoSkipping n))"
  "merge_stage_event din dout out (Logged (FinishedProcessing k p))"
  "merge_stage_event din dout out (Logged (FatalProcessingFailed e))"
  "\<not> merge_stage_event din dout out (Logged (CreatedArchiveDir p))"
  "\<not> merge_stage_event din dout out (Logged (ArchivingMergedFile p))"
  "\<not> merge_stage_event din dout out (Logged ArchivingSourceFiles)"
  "\<not> merge_stage_event din dout out (Logged (WarnFailedToArchive p))"
  "\<not> merge_stage_event din dout out (Logged ArchivingComplete)"
  "\<not> merge_stage_event din dout out (Logged (FatalArchivingFailed e))"
  "\<not> merge_stage_event din dout out (Logged ProcessCompleted)"
  by (simp_all add: merge_stage_event_def)













section \<open>Write errors and the output handle\<close>

lemma failed_write_simps [simp]:
  "failed_write (Ev_WriteHeader r ok) \<longleftrightarrow> \<not> ok"
  "failed_write (Ev_WriteRow r ok) \<longleftrightarrow> \<not> ok"
  "\<not> failed_write (Logged m)"
  "\<not> failed_write (Ev_MkdirAll p ok)"
  "\<not> failed_write (Ev_Create p ok)"
  "\<not> failed_write (Ev_Walk p)"
  "\<not> failed_write (Ev_Flush ok)"
  "\<not> failed_write (Ev_Close p)"
  by (simp_all add: failed_write_def)

lemma walkFn_ok_writes:
  assumes "walkFn env e st = (None, st')"
  shows "\<exists>evs. events st' = events st @ evs \<and> \<not> list_ex failed_write evs"
  using assms
  by (auto simp add: walkFn_def Let_def remark_def list_ex_iff
      split: if_splits read_result.splits prod.splits bool.splits
      dest!: write_rows_ok writer_Write_ok)

lemma walk_loop_ok_writes:
  "walk_loop env es st = (None, st') \<Longrightarrow>
     \<exists>evs. events st' = events st @ evs \<and> \<not> list_ex failed_write evs"
proof (induction es arbitrary: st)
  case Nil
  then show ?case by simp
next
  case (Cons e es)
  from Cons.prems obtain st1 where
    f: "walkFn env e st = (None, st1)" and l: "walk_loop env es st1 = (None, st')"
    by (auto split: prod.splits option.splits)
  from walkFn_ok_writes [OF f] Cons.IH [OF l] show ?case
    by (auto simp add: list_ex_iff)
qed

text \<open>
  An error returned by \<^verbatim>\<open>writer.Write\<close> makes the merge return an error: a merge that
  returns none has seen every call of \<^verbatim>\<open>writer.Write\<close> succeed.
\<close>

lemma write_error_is_fatal:
  assumes "fst (processFiles env din dout w) = Inr p"
  shows "\<exists>evs. trace (snd (processFiles env din dout w)) = trace w @ evs \<and>
               \<not> list_ex failed_write evs"
proof -
  from processFiles_InrD [OF fst_processFiles [OF assms]] obtain st where
    l: "walk_loop env (walk_yield env) (walk_init din) = (None, st)" and
    w': "snd (processFiles env din dout w) = deferred env p st
           (w\<lparr>fs := (\<lambda>q. if prefix q dout \<and> fs w q = None then Some Dir else fs w q)(p \<mapsto> File []),
              trace := trace w @ [Ev_MkdirAll dout True, Ev_Create p True] @ events st @
                    [Logged (FinishedProcessing (filesProcessed st) p)]\<rparr>)"
    by blast
  from walk_loop_ok_writes [OF l] obtain evs where
    "events st = events (walk_init din) @ evs" "\<not> list_ex failed_write evs"
    by blast
  then show ?thesis
    unfolding w'
    by (simp add: deferred_def Close_def writer_Flush_def walk_init_def list_ex_iff)
qed

text \<open>
  Once the output file is created, every way out of \<open>processFiles\<close> ends with the flush
  and then the close of the output file.
\<close>

lemma output_handle_released:
  assumes "\<not> mkdir_fails env dout" and "\<not> create_fails env (output_path env dout)"
  shows "\<exists>evs ok. trace (snd (processFiles env din dout w)) =
           trace w @ evs @ [Ev_Flush ok, Ev_Close (output_path env dout)]"
proof -
  obtain r st where l: "walk_loop env (walk_yield env) (walk_init din) = (r, st)"
    by (cases "walk_loop env (walk_yield env) (walk_init din)")
  show ?thesis
    unfolding processFiles_walk [OF assms l]
    by (cases r) (auto simp add: deferred_def Close_def writer_Flush_def)
qed

section \<open>The claims\<close>

text \<open>
  Claim C7. A candidate file that cannot be opened, or whose content does not parse, is
  logged with a warning and skipped: the callback returns no error and changes nothing but
  the log. The merge then returns what it returns without that file, and leaves the file
  system as it does without it, so the rows of the other files are the same.
\<close>

theorem C7_unreadable_file_is_skipped:
  assumes "\<not> w_err e" and "\<not> w_is_dir e" and "HasSuffix (ToLower (w_name e)) ''.csv''"
    and "w_read e = OpenFails \<or> w_read e = ParseFails"
  shows "walkFn env e st =
           (None, st\<lparr>events := events st @
              [Logged (ProcessingFile (w_name e)),
               Logged (if w_read e = OpenFails then WarnCouldNotOpen (w_path e)
                       else WarnCouldNotRead (w_path e))]\<rparr>) \<and>
         fst (processFiles (env\<lparr>walk_yield := xs @ e # ys\<rparr>) din dout w) =
         fst (processFiles (env\<lparr>walk_yield := xs @ ys\<rparr>) din dout w) \<and>
         fs (snd (processFiles (env\<lparr>walk_yield := xs @ e # ys\<rparr>) din dout w)) =
         fs (snd (processFiles (env\<lparr>walk_yield := xs @ ys\<rparr>) din dout w))"
  using walkFn_unreadable [OF assms] processFiles_drop_unreadable [OF assms]
  by simp

theorem C7_witness:
  "\<not> w_err garbled \<and> \<not> w_is_dir garbled \<and> HasSuffix (ToLower (w_name garbled)) ''.csv'' \<and>
   w_read garbled = ParseFails \<and>
   walkFn (calm [aapl, garbled, msft]) garbled (walk_init [''in'']) =
     (None, (walk_init [''in''])\<lparr>events := events (walk_init [''in'']) @
        [Logged (ProcessingFile ''bad.csv''), Logged (WarnCouldNotRead [''in'', ''bad.csv''])]\<rparr>) \<and>
   fst (processFiles (calm [aapl, garbled, msft]) [''in''] [''out''] disk0) =
     fst (processFiles ((calm [aapl, garbled, msft])\<lparr>walk_yield := [aapl, msft]\<rparr>)
            [''in''] [''out''] disk0) \<and>
   fst (processFiles (calm [aapl, garbled, msft]) [''in''] [''out''] disk0) =
     Inr [''out'', ''extract_20250309.csv''] \<and>
   fs (snd (processFiles (calm [aapl, garbled, msft]) [''in''] [''out''] disk0))
      [''out'', ''extract_20250309.csv''] =
     Some (File [[''date'', ''price'', ''tick_nm''], [''2020-01-01'', ''100'', ''AAPL''],
                 [''2020-01-02'', ''200'', ''MSFT'']])"
proof -
  have h: "\<not> w_err garbled" "\<not> w_is_dir garbled" "HasSuffix (ToLower (w_name garbled)) ''.csv''"
    "w_read garbled = OpenFails \<or> w_read garbled = ParseFails"
    by code_simp+
  have e: "(calm [aapl, garbled, msft])\<lparr>walk_yield := [aapl] @ garbled # [msft]\<rparr> =
           calm [aapl, garbled, msft]"
    by (simp add: calm_def)
  have g: "w_read garbled = ParseFails" "w_name garbled = ''bad.csv''"
    "w_path garbled = [''in'', ''bad.csv'']"
    by (simp_all add: garbled_def)
  have v: "fst (processFiles (calm [aapl, garbled, msft]) [''in''] [''out''] disk0) =
     Inr [''out'', ''extract_20250309.csv'']"
    by code_simp
  have c: "fs (snd (processFiles (calm [aapl, garbled, msft]) [''in''] [''out''] disk0))
      [''out'', ''extract_20250309.csv''] =
     Some (File [[''date'', ''price'', ''tick_nm''], [''2020-01-01'', ''100'', ''AAPL''],
                 [''2020-01-02'', ''200'', ''MSFT'']])"
    by code_simp
  from C7_unreadable_file_is_skipped [OF h, of "calm [aapl, garbled, msft]" "walk_init [''in'']"
      "[aapl]" "[msft]" "[''in'']" "[''out'']" disk0]
  show ?thesis
    unfolding e using h(1-3) g v c by simp
qed

text \<open>
  Claim C1, as amended. When the merge returns no error and the buffered records reach
  the file, the output file holds the header followed by the data rows; the number of
  data rows is the sum, over the source files that parse to at least two records, of
  the record count minus one, so that a file with fewer records adds nothing; and there
  is one header row when some file has at least two records, and none otherwise.
\<close>

theorem C1_row_count:
  assumes "fst (processFiles env din dout w) = Inr p" and "\<not> flush_fails env"
  shows "fs (snd (processFiles env din dout w)) p =
           Some (File (spec_header (walk_yield env) @
                     concat (map spec_data_rows (filter spec_contributes (walk_yield env))))) \<and>
         length (concat (map spec_data_rows (filter spec_contributes (walk_yield env)))) =
           sum_list (map (\<lambda>e. length (spec_records (w_read e)) - 1)
                      (filter spec_contributes (walk_yield env))) \<and>
         length (spec_header (walk_yield env)) =
           (if filter spec_contributes (walk_yield env) = [] then 0 else 1)"
  using processFiles_Inr(5) [OF fst_processFiles [OF assms(1)]] assms(2)
  by (simp add: spec_merged_dataset_def length_spec_data_rows length_spec_header)

theorem C1_witness:
  "fst (processFiles (calm [aapl, header_only, msft]) [''in''] [''out''] disk0) =
     Inr [''out'', ''extract_20250309.csv''] \<and>
   \<not> flush_fails (calm [aapl, header_only, msft]) \<and>
   fs (snd (processFiles (calm [aapl, header_only, msft]) [''in''] [''out''] disk0))
      [''out'', ''extract_20250309.csv''] =
     Some (File ([[''date'', ''price'', ''tick_nm'']] @
                 [[''2020-01-01'', ''100'', ''AAPL''], [''2020-01-02'', ''200'', ''MSFT'']])) \<and>
   length [[''2020-01-01'', ''100'', ''AAPL''], [''2020-01-02'', ''200'', ''MSFT'']] =
     sum_list (map (\<lambda>e. length (spec_records (w_read e)) - 1) [aapl, msft]) \<and>
   length (spec_header (walk_yield (calm [aapl, header_only, msft]))) = 1"
proof -
  have h1: "fst (processFiles (calm [aapl, header_only, msft]) [''in''] [''out''] disk0) =
     Inr [''out'', ''extract_20250309.csv'']"
    by code_simp
  have h2: "\<not> flush_fails (calm [aapl, header_only, msft])"
    by (simp add: calm_def)
  have s: "spec_header (walk_yield (calm [aapl, header_only, msft])) =
             [[''date'', ''price'', ''tick_nm'']]"
    by code_simp
  have f: "filter spec_contributes (walk_yield (calm [aapl, header_only, msft])) = [aapl, msft]"
    by code_simp
  have d: "concat (map spec_data_rows [aapl, msft]) =
           [[''2020-01-01'', ''100'', ''AAPL''], [''2020-01-02'', ''200'', ''MSFT'']]"
    by code_simp
  from C1_row_count [OF h1 h2] have
    "fs (snd (processFiles (calm [aapl, header_only, msft]) [''in''] [''out''] disk0))
      [''out'', ''extract_20250309.csv''] =
     Some (File ([[''date'', ''price'', ''tick_nm'']] @
                 [[''2020-01-01'', ''100'', ''AAPL''], [''2020-01-02'', ''200'', ''MSFT'']]))"
    and "length [[''2020-01-01'', ''100'', ''AAPL''], [''2020-01-02'', ''200'', ''MSFT'']] =
     sum_list (map (\<lambda>e. length (spec_records (w_read e)) - 1) [aapl, msft])"
    unfolding s f d by blast+
  with h1 h2 s show ?thesis by simp
qed

text \<open>
  Claim C1 as stated asks for one header row in every run. Over an input root whose
  only file holds a header and no data row, the merge succeeds and writes nothing at all.
\<close>

theorem C1_counterexample:
  "fst (processFiles (calm [header_only]) [''in''] [''out''] disk0) =
     Inr [''out'', ''extract_20250309.csv''] \<and>
   fs (snd (processFiles (calm [header_only]) [''in''] [''out''] disk0))
     [''out'', ''extract_20250309.csv''] = Some (File []) \<and>
   header_writes (trace (snd (processFiles (calm [header_only]) [''in''] [''out''] disk0))) = []"
proof -
  have a: "fst (processFiles (calm [header_only]) [''in''] [''out''] disk0) =
     Inr [''out'', ''extract_20250309.csv'']"
    by code_simp
  have b: "fs (snd (processFiles (calm [header_only]) [''in''] [''out''] disk0))
     [''out'', ''extract_20250309.csv''] = Some (File [])"
    by code_simp
  have c: "header_writes (trace (snd (processFiles (calm [header_only]) [''in''] [''out''] disk0))) = []"
    by code_simp
  from a b c show ?thesis by simp
qed

text \<open>
  Claim C2. Every row that the row loop hands to the writer in a run, whatever the run
  returns, is a record of a source file of the walk, not its first, with one field
  appended; the record's own fields are unchanged, and the appended field, followed by
  the file's extension, is the file's exact name. When the merge returns no error and the
  buffer reaches the file, the file holds the header and then exactly these rows.
\<close>

theorem C2_provenance_field:
  "(\<forall>row. row \<in> set (row_writes (trace (snd (processFiles env din dout w)))) \<and>
          row \<notin> set (row_writes (trace w)) \<longrightarrow>
          spec_tagged_row (walk_yield env) row) \<and>
   (\<forall>p. fst (processFiles env din dout w) = Inr p \<and> \<not> flush_fails env \<longrightarrow>
     (\<exists>data. fs (snd (processFiles env din dout w)) p =
               Some (File (spec_header (walk_yield env) @ data)) \<and>
             row_writes (trace (snd (processFiles env din dout w))) =
               row_writes (trace w) @ data \<and>
             (\<forall>row\<in>set data. spec_tagged_row (walk_yield env) row)))"
proof -
  have a: "spec_tagged_row (walk_yield env) row"
    if "row \<in> set (row_writes (trace (snd (processFiles env din dout w))))"
      and "row \<notin> set (row_writes (trace w))" for row
  proof -
    from processFiles_trace [of env din dout w] obtain evs where
      t: "trace (snd (processFiles env din dout w)) = trace w @ evs" and
      r: "set (row_writes evs) \<subseteq>
         (\<Union>e\<in>set (filter spec_contributes (walk_yield env)). set (spec_data_rows e))"
      by blast
    from that t have "row \<in> set (row_writes evs)" by simp
    with r obtain e where "e \<in> set (walk_yield env)" "spec_contributes e"
      "row \<in> set (spec_data_rows e)"
      by auto
    then show ?thesis by (rule spec_data_rows_tagged)
  qed
  have b: "\<exists>data. fs (snd (processFiles env din dout w)) p =
               Some (File (spec_header (walk_yield env) @ data)) \<and>
             row_writes (trace (snd (processFiles env din dout w))) =
               row_writes (trace w) @ data \<and>
             (\<forall>row\<in>set data. spec_tagged_row (walk_yield env) row)"
    if "fst (processFiles env din dout w) = Inr p" and "\<not> flush_fails env" for p
  proof -
    note i = processFiles_Inr(5,9) [OF fst_processFiles [OF that(1)]]
    define data where
      "data = concat (map spec_data_rows (filter spec_contributes (walk_yield env)))"
    have "\<forall>row\<in>set data. spec_tagged_row (walk_yield env) row"
      by (auto simp add: data_def intro: spec_data_rows_tagged)
    with i that(2) show ?thesis
      by (intro exI [of _ data]) (simp add: data_def spec_merged_dataset_def)
  qed
  from a b show ?thesis by blast
qed

theorem C2_witness:
  "[''2020-01-02'', ''200'', ''MSFT''] \<in>
     set (row_writes (trace (snd (processFiles (calm [aapl, msft]) [''in''] [''out''] disk0)))) \<and>
   [''2020-01-02'', ''200'', ''MSFT''] \<notin> set (row_writes (trace disk0)) \<and>
   spec_tagged_row (walk_yield (calm [aapl, msft])) [''2020-01-02'', ''200'', ''MSFT''] \<and>
   fst (processFiles (calm [aapl, msft]) [''in''] [''out''] disk0) =
     Inr [''out'', ''extract_20250309.csv''] \<and>
   \<not> flush_fails (calm [aapl, msft]) \<and>
   (\<exists>data. fs (snd (processFiles (calm [aapl, msft]) [''in''] [''out''] disk0))
             [''out'', ''extract_20250309.csv''] =
               Some (File (spec_header (walk_yield (calm [aapl, msft])) @ data)) \<and>
           row_writes (trace (snd (processFiles (calm [aapl, msft]) [''in''] [''out''] disk0))) =
               row_writes (trace disk0) @ data \<and>
           list_all (spec_tagged_row (walk_yield (calm [aapl, msft]))) data)"
proof -
  have h1: "[''2020-01-02'', ''200'', ''MSFT''] \<in>
     set (row_writes (trace (snd (processFiles (calm [aapl, msft]) [''in''] [''out''] disk0))))"
    by code_simp
  have h2: "[''2020-01-02'', ''200'', ''MSFT''] \<notin> set (row_writes (trace disk0))"
    by (simp add: disk0_def)
  have h3: "fst (processFiles (calm [aapl, msft]) [''in''] [''out''] disk0) =
     Inr [''out'', ''extract_20250309.csv'']"
    by code_simp
  have h4: "\<not> flush_fails (calm [aapl, msft])"
    by (simp add: calm_def)
  note c = C2_provenance_field [of "calm [aapl, msft]" "[''in'']" "[''out'']" disk0]
  from c h1 h2 have a: "spec_tagged_row (walk_yield (calm [aapl, msft]))
      [''2020-01-02'', ''200'', ''MSFT'']"
    by blast
  from c h3 h4 have b: "\<exists>data. fs (snd (processFiles (calm [aapl, msft]) [''in''] [''out''] disk0))
             [''out'', ''extract_20250309.csv''] =
               Some (File (spec_header (walk_yield (calm [aapl, msft])) @ data)) \<and>
           row_writes (trace (snd (processFiles (calm [aapl, msft]) [''in''] [''out''] disk0))) =
               row_writes (trace disk0) @ data \<and>
           list_all (spec_tagged_row (walk_yield (calm [aapl, msft]))) data"
    unfolding list_all_iff by blast
  from h1 h2 a h3 h4 b show ?thesis by blast
qed

text \<open>
  Claim C5. Let a file with at least two records come in the walk after files that have
  fewer, or that are no source files at all. In any run the header is written at most once,
  and only as that file's first record with \<^verbatim>\<open>tick_nm\<close> appended. When the merge returns no
  error it has been written exactly once, and it is the first row of the flushed file.
\<close>

theorem C5_header:
  assumes "walk_yield env = xs @ e # ys" and "\<forall>x\<in>set xs. \<not> spec_contributes x"
    and "spec_contributes e"
  shows "(header_writes (trace (snd (processFiles env din dout w))) = header_writes (trace w) \<or>
          header_writes (trace (snd (processFiles env din dout w))) =
            header_writes (trace w) @ [hd (spec_records (w_read e)) @ [''tick_nm'']]) \<and>
         (\<forall>p. fst (processFiles env din dout w) = Inr p \<longrightarrow>
            header_writes (trace (snd (processFiles env din dout w))) =
              header_writes (trace w) @ [hd (spec_records (w_read e)) @ [''tick_nm'']] \<and>
            (\<not> flush_fails env \<longrightarrow>
               (\<exists>rows. fs (snd (processFiles env din dout w)) p =
                         Some (File ((hd (spec_records (w_read e)) @ [''tick_nm'']) # rows)))))"
proof -
  from assms have f: "filter spec_contributes (walk_yield env) = e # filter spec_contributes ys"
    by simp
  then have h: "spec_header (walk_yield env) = [hd (spec_records (w_read e)) @ [''tick_nm'']]"
    by (simp add: spec_header_def)
  from processFiles_trace [of env din dout w] h
  have a: "header_writes (trace (snd (processFiles env din dout w))) = header_writes (trace w) \<or>
          header_writes (trace (snd (processFiles env din dout w))) =
            header_writes (trace w) @ [hd (spec_records (w_read e)) @ [''tick_nm'']]"
    by auto
  have b: "header_writes (trace (snd (processFiles env din dout w))) =
              header_writes (trace w) @ [hd (spec_records (w_read e)) @ [''tick_nm'']] \<and>
            (\<not> flush_fails env \<longrightarrow>
               (\<exists>rows. fs (snd (processFiles env din dout w)) p =
                         Some (File ((hd (spec_records (w_read e)) @ [''tick_nm'']) # rows))))"
    if "fst (processFiles env din dout w) = Inr p" for p
    using processFiles_Inr(5,7) [OF fst_processFiles [OF that]] h
    by (simp add: spec_merged_dataset_def)
  from a b show ?thesis by blast
qed

theorem C5_witness:
  "walk_yield (calm [header_only, aapl, msft]) = [header_only] @ aapl # [msft] \<and>
   \<not> spec_contributes header_only \<and> spec_contributes aapl \<and>
   fst (processFiles (calm [header_only, aapl, msft]) [''in''] [''out''] disk0) =
     Inr [''out'', ''extract_20250309.csv''] \<and>
   header_writes (trace (snd (processFiles (calm [header_only, aapl, msft]) [''in''] [''out''] disk0))) =
     [[''date'', ''price'', ''tick_nm'']] \<and>
   (\<exists>rows. fs (snd (processFiles (calm [header_only, aapl, msft]) [''in''] [''out''] disk0))
              [''out'', ''extract_20250309.csv''] =
            Some (File ([''date'', ''price'', ''tick_nm''] # rows)))"
proof -
  have h1: "walk_yield (calm [header_only, aapl, msft]) = [header_only] @ aapl # [msft]"
    by (simp add: calm_def)
  have n: "\<not> spec_contributes header_only" by code_simp
  then have h2: "\<forall>x\<in>set [header_only]. \<not> spec_contributes x" by simp
  have h3: "spec_contributes aapl" by code_simp
  have r: "fst (processFiles (calm [header_only, aapl, msft]) [''in''] [''out''] disk0) =
     Inr [''out'', ''extract_20250309.csv'']"
    by code_simp
  have fl: "\<not> flush_fails (calm [header_only, aapl, msft])" by (simp add: calm_def)
  have hd: "hd (spec_records (w_read aapl)) @ [''tick_nm''] = [''date'', ''price'', ''tick_nm'']"
    by (simp add: aapl_def)
  have t: "header_writes (trace disk0) = []" by (simp add: disk0_def)
  from C5_header [OF h1 h2 h3, of "[''in'']" "[''out'']" disk0] r fl
  have "header_writes (trace (snd (processFiles (calm [header_only, aapl, msft]) [''in''] [''out''] disk0))) =
     [[''date'', ''price'', ''tick_nm'']]"
    and "\<exists>rows. fs (snd (processFiles (calm [header_only, aapl, msft]) [''in''] [''out''] disk0))
              [''out'', ''extract_20250309.csv''] =
            Some (File ([''date'', ''price'', ''tick_nm''] # rows))"
    unfolding hd t by simp_all
  with h1 n h3 r show ?thesis by blast
qed

text \<open>
  Claim C8, as amended. A merge that returns no error returns the output file's path and
  nothing else; the number of files that contributed rows is the number in the last log
  line it writes, before the deferred flush and close.
\<close>

theorem C8_returns_path_only:
  assumes "fst (processFiles env din dout w) = Inr p"
  shows "p = output_path env dout \<and>
         (\<exists>evs. trace (snd (processFiles env din dout w)) =
            trace w @ [Ev_MkdirAll dout True, Ev_Create p True] @ evs @
            [Logged (FinishedProcessing (length (filter spec_contributes (walk_yield env))) p),
             Ev_Flush (\<not> flush_fails env), Ev_Close p])"
  using processFiles_Inr(1,8) [OF fst_processFiles [OF assms]]
  by blast

theorem C8_witness:
  "fst (processFiles (calm [aapl, garbled, header_only, msft]) [''in''] [''out''] disk0) =
     Inr [''out'', ''extract_20250309.csv''] \<and>
   [''out'', ''extract_20250309.csv''] =
     output_path (calm [aapl, garbled, header_only, msft]) [''out''] \<and>
   length (filter spec_contributes (walk_yield (calm [aapl, garbled, header_only, msft]))) = 2 \<and>
   (\<exists>evs. trace (snd (processFiles (calm [aapl, garbled, header_only, msft]) [''in''] [''out''] disk0)) =
      trace disk0 @ [Ev_MkdirAll [''out''] True, Ev_Create [''out'', ''extract_20250309.csv''] True] @
      evs @
      [Logged (FinishedProcessing 2 [''out'', ''extract_20250309.csv'']),
       Ev_Flush True, Ev_Close [''out'', ''extract_20250309.csv'']])"
proof -
  have h: "fst (processFiles (calm [aapl, garbled, header_only, msft]) [''in''] [''out''] disk0) =
     Inr [''out'', ''extract_20250309.csv'']"
    by code_simp
  have n: "length (filter spec_contributes (walk_yield (calm [aapl, garbled, header_only, msft]))) = 2"
    by code_simp
  have f: "flush_fails (calm [aapl, garbled, header_only, msft]) = False"
    by (simp add: calm_def)
  have o: "output_path (calm [aapl, garbled, header_only, msft]) [''out''] =
             [''out'', ''extract_20250309.csv'']"
    by code_simp
  from C8_returns_path_only [OF h] h n show ?thesis
    unfolding n f o by simp
qed

text \<open>
  Claim C8 as stated has the count returned to the caller. Two runs that process no file
  and two files return the very same value; only their logs tell the counts apart.
\<close>

theorem C8_counterexample:
  "fst (processFiles (calm [header_only]) [''in''] [''out''] disk0) =
     fst (processFiles (calm [aapl, msft]) [''in''] [''out''] disk0) \<and>
   Logged (FinishedProcessing 0 [''out'', ''extract_20250309.csv'']) \<in>
     set (trace (snd (processFiles (calm [header_only]) [''in''] [''out''] disk0))) \<and>
   Logged (FinishedProcessing 2 [''out'', ''extract_20250309.csv'']) \<in>
     set (trace (snd (processFiles (calm [aapl, msft]) [''in''] [''out''] disk0)))"
proof -
  have a: "fst (processFiles (calm [header_only]) [''in''] [''out''] disk0) =
     Inr [''out'', ''extract_20250309.csv'']"
    by code_simp
  have b: "fst (processFiles (calm [aapl, msft]) [''in''] [''out''] disk0) =
     Inr [''out'', ''extract_20250309.csv'']"
    by code_simp
  have c: "Logged (FinishedProcessing 0 [''out'', ''extract_20250309.csv'']) \<in>
     set (trace (snd (processFiles (calm [header_only]) [''in''] [''out''] disk0)))"
    by code_simp
  have d: "Logged (FinishedProcessing 2 [''out'', ''extract_20250309.csv'']) \<in>
     set (trace (snd (processFiles (calm [aapl, msft]) [''in''] [''out''] disk0)))"
    by code_simp
  from a b c d show ?thesis by simp
qed



text \<open>
  Claim C6. Once the archive subdirectory is made, the merged file is the first thing
  \<open>archiveAndCleanup\<close> moves. If that move fails, because the rename is refused or because
  no file stands at the merged path, \<open>archiveAndCleanup\<close> returns an error, no other move
  is tried and the file system is as the directory creation left it. If it succeeds, the
  merged file stands in the archive subdirectory under its base name, and no more at its
  old path, before the input root is listed and any of its entries is moved. When the
  input root can then be listed, \<open>archiveAndCleanup\<close> returns no error, whatever becomes of
  the single moves: each entry that is not a directory is tried once, in the listing's
  order, after the merged file; the merged file is still in the archive subdirectory at
  the end, unless an entry of the listing bears its name; an entry whose move fails,
  because the rename is refused or because the file is not there, is warned about in the
  log and is afterwards where it was; and, the names of the listing being distinct, an
  entry whose move succeeds stands in the archive subdirectory afterwards and no more in
  the input root.
\<close>

theorem C6_archive_order_and_failures:
  assumes "\<not> mkdir_fails env (archive_subdir env arch)"
  shows
   "(rename_fails env merged (Join (archive_subdir env arch) (Base merged)) \<or>
     after_mkdir (archive_subdir env arch) w merged = None \<longrightarrow>
       fst (archiveAndCleanup env arch merged din w) = Some FailedToArchiveMergedFile \<and>
       renames (trace (snd (archiveAndCleanup env arch merged din w))) =
         renames (trace w) @ [(merged, Join (archive_subdir env arch) (Base merged), False)] \<and>
       fs (snd (archiveAndCleanup env arch merged din w)) =
         after_mkdir (archive_subdir env arch) w) \<and>
    (\<not> rename_fails env merged (Join (archive_subdir env arch) (Base merged)) \<and>
     after_mkdir (archive_subdir env arch) w merged \<noteq> None \<longrightarrow>
       (\<forall>files. readdir_yield env = Some files \<longrightarrow>
          fst (archiveAndCleanup env arch merged din w) = None \<and>
          snd (archiveAndCleanup env arch merged din w) =
            logf ArchivingComplete
              (archive_files env (archive_subdir env arch) din files
                 ((merged_moved env arch merged w)
                    \<lparr>trace := trace (merged_moved env arch merged w) @ [Ev_ReadDir din True]\<rparr>)) \<and>
          fs (merged_moved env arch merged w) (Join (archive_subdir env arch) (Base merged)) =
            after_mkdir (archive_subdir env arch) w merged \<and>
          (merged \<noteq> Join (archive_subdir env arch) (Base merged) \<longrightarrow>
             fs (merged_moved env arch merged w) merged = None) \<and>
          (\<exists>rest. renames (trace (snd (archiveAndCleanup env arch merged din w))) =
                    renames (trace w) @
                    (merged, Join (archive_subdir env arch) (Base merged), True) # rest \<and>
                  map (\<lambda>(a, b, ok). (a, b)) rest =
                    map (\<lambda>f. (Join din (d_name f), Join (archive_subdir env arch) (d_name f)))
                        (filter (\<lambda>f. \<not> d_is_dir f) files)) \<and>
          ((\<forall>f\<in>set files. d_name f \<noteq> Base merged) \<longrightarrow>
             fs (snd (archiveAndCleanup env arch merged din w))
                (Join (archive_subdir env arch) (Base merged)) =
               after_mkdir (archive_subdir env arch) w merged) \<and>
          (\<forall>f\<in>set files.
             \<not> d_is_dir f \<and>
             rename_fails env (Join din (d_name f)) (Join (archive_subdir env arch) (d_name f)) \<longrightarrow>
               Logged (WarnFailedToArchive (Join din (d_name f))) \<in>
                 set (trace (snd (archiveAndCleanup env arch merged din w))) \<and>
               (fs w (Join din (d_name f)) \<noteq> None \<and> Join din (d_name f) \<noteq> merged \<and>
                Join din (d_name f) \<noteq> Join (archive_subdir env arch) (Base merged) \<longrightarrow>
                  fs (snd (archiveAndCleanup env arch merged din w)) (Join din (d_name f)) =
                    fs w (Join din (d_name f)))) \<and>
          (\<forall>f\<in>set files.
             \<not> d_is_dir f \<and> fs (merged_moved env arch merged w) (Join din (d_name f)) = None \<longrightarrow>
               Logged (WarnFailedToArchive (Join din (d_name f))) \<in>
                 set (trace (snd (archiveAndCleanup env arch merged din w))) \<and>
               fs (snd (archiveAndCleanup env arch merged din w)) (Join din (d_name f)) = None) \<and>
          (distinct (map d_name files) \<longrightarrow>
             (\<forall>f\<in>set files.
                \<not> d_is_dir f \<and>
                \<not> rename_fails env (Join din (d_name f))
                     (Join (archive_subdir env arch) (d_name f)) \<and>
                fs (merged_moved env arch merged w) (Join din (d_name f)) \<noteq> None \<longrightarrow>
                  fs (snd (archiveAndCleanup env arch merged din w))
                     (Join (archive_subdir env arch) (d_name f)) =
                    fs (merged_moved env arch merged w) (Join din (d_name f)) \<and>
                  (din \<noteq> archive_subdir env arch \<longrightarrow>
                     fs (snd (archiveAndCleanup env arch merged din w)) (Join din (d_name f)) =
                       None)))))"
proof -
  define sub where "sub = archive_subdir env arch"
  define newp where "newp = Join sub (Base merged)"
  define R where "R = archiveAndCleanup env arch merged din w"
  define wm where "wm = merged_moved env arch merged w"
  define w5 where "w5 = wm\<lparr>trace := trace wm @ [Ev_ReadDir din True]\<rparr>"
  have a: "fst R = Some FailedToArchiveMergedFile \<and>
       renames (trace (snd R)) = renames (trace w) @ [(merged, newp, False)] \<and>
       fs (snd R) = after_mkdir sub w"
    if "rename_fails env merged newp \<or> after_mkdir sub w merged = None"
    unfolding R_def
    using archive_merged_stuck [OF assms, of merged w din] that
    by (simp add: sub_def newp_def)
  have b: "fst R = None \<and>
          snd R = logf ArchivingComplete (archive_files env sub din files w5) \<and>
          fs wm newp = after_mkdir sub w merged \<and>
          (merged \<noteq> newp \<longrightarrow> fs wm merged = None) \<and>
          (\<exists>rest. renames (trace (snd R)) = renames (trace w) @ (merged, newp, True) # rest \<and>
                  map (\<lambda>(a, b, ok). (a, b)) rest =
                    map (\<lambda>f. (Join din (d_name f), Join sub (d_name f)))
                        (filter (\<lambda>f. \<not> d_is_dir f) files)) \<and>
          ((\<forall>f\<in>set files. d_name f \<noteq> Base merged) \<longrightarrow>
             fs (snd R) newp = after_mkdir sub w merged) \<and>
          (\<forall>f\<in>set files.
             \<not> d_is_dir f \<and> rename_fails env (Join din (d_name f)) (Join sub (d_name f)) \<longrightarrow>
               Logged (WarnFailedToArchive (Join din (d_name f))) \<in> set (trace (snd R)) \<and>
               (fs w (Join din (d_name f)) \<noteq> None \<and> Join din (d_name f) \<noteq> merged \<and>
                Join din (d_name f) \<noteq> newp \<longrightarrow>
                  fs (snd R) (Join din (d_name f)) = fs w (Join din (d_name f)))) \<and>
          (\<forall>f\<in>set files.
             \<not> d_is_dir f \<and> fs wm (Join din (d_name f)) = None \<longrightarrow>
               Logged (WarnFailedToArchive (Join din (d_name f))) \<in> set (trace (snd R)) \<and>
               fs (snd R) (Join din (d_name f)) = None) \<and>
          (distinct (map d_name files) \<longrightarrow>
             (\<forall>f\<in>set files.
                \<not> d_is_dir f \<and> \<not> rename_fails env (Join din (d_name f)) (Join sub (d_name f)) \<and>
                fs wm (Join din (d_name f)) \<noteq> None \<longrightarrow>
                  fs (snd R) (Join sub (d_name f)) = fs wm (Join din (d_name f)) \<and>
                  (din \<noteq> sub \<longrightarrow> fs (snd R) (Join din (d_name f)) = None)))"
    if nr: "\<not> rename_fails env merged newp" and ex: "after_mkdir sub w merged \<noteq> None"
      and rd: "readdir_yield env = Some files" for files
  proof -
    from archive_merged_moved [OF assms nr [unfolded newp_def sub_def] ex [unfolded sub_def], of din] rd
    have R: "R = (None, logf ArchivingComplete (archive_files env sub din files w5))"
      by (simp add: R_def w5_def wm_def sub_def)
    have t5: "renames (trace w5) = renames (trace w) @ [(merged, newp, True)]"
      by (simp add: w5_def wm_def merged_moved_def newp_def sub_def)
    have f5: "fs w5 = fs wm" by (simp add: w5_def)
    have r1: "fst R = None" by (simp add: R)
    have r1': "snd R = logf ArchivingComplete (archive_files env sub din files w5)"
      by (simp add: R)
    have m1: "fs wm newp = after_mkdir sub w merged"
      by (simp add: wm_def merged_moved_def newp_def sub_def)
    have m2: "fs wm merged = None" if "merged \<noteq> newp"
      using that by (simp add: wm_def merged_moved_def newp_def sub_def)
    from archive_files_trace_mono [of env sub din files w5] obtain evs where
      evs: "trace (archive_files env sub din files w5) = trace w5 @ evs" ..
    have r2: "\<exists>rest. renames (trace (snd R)) = renames (trace w) @ (merged, newp, True) # rest \<and>
                  map (\<lambda>(a, b, ok). (a, b)) rest =
                    map (\<lambda>f. (Join din (d_name f), Join sub (d_name f)))
                        (filter (\<lambda>f. \<not> d_is_dir f) files)"
    proof (intro exI conjI)
      show "renames (trace (snd R)) = renames (trace w) @ (merged, newp, True) # renames evs"
        by (simp add: R logf_def evs t5)
      from archive_files_renames [of env sub din files w5]
      show "map (\<lambda>(a, b, ok). (a, b)) (renames evs) =
              map (\<lambda>f. (Join din (d_name f), Join sub (d_name f)))
                  (filter (\<lambda>f. \<not> d_is_dir f) files)"
        by (simp add: evs)
    qed
    have r4: "fs (snd R) newp = after_mkdir sub w merged"
      if "\<forall>f\<in>set files. d_name f \<noteq> Base merged"
    proof -
      from that have "\<forall>f\<in>set files. newp \<noteq> Join din (d_name f) \<and> newp \<noteq> Join sub (d_name f)"
        by (auto simp add: newp_def)
      from archive_files_frame [OF this, of env w5] m1 show ?thesis
        by (simp add: R logf_def f5)
    qed
    have r3: "Logged (WarnFailedToArchive (Join din (d_name f))) \<in> set (trace (snd R)) \<and>
               (fs w (Join din (d_name f)) \<noteq> None \<and> Join din (d_name f) \<noteq> merged \<and>
                Join din (d_name f) \<noteq> newp \<longrightarrow>
                  fs (snd R) (Join din (d_name f)) = fs w (Join din (d_name f)))"
      if f: "f \<in> set files" "\<not> d_is_dir f"
        "rename_fails env (Join din (d_name f)) (Join sub (d_name f))" for f
    proof -
      from archive_files_failed_warns [OF f, of w5]
      have l: "Logged (WarnFailedToArchive (Join din (d_name f))) \<in> set (trace (snd R))"
        by (simp add: R logf_def)
      have "fs (snd R) (Join din (d_name f)) = fs w5 (Join din (d_name f))"
        using archive_files_failed_stays [OF f(3), of files w5] by (simp add: R logf_def)
      moreover have "fs w5 (Join din (d_name f)) = fs w (Join din (d_name f))"
        if "fs w (Join din (d_name f)) \<noteq> None" "Join din (d_name f) \<noteq> merged"
          "Join din (d_name f) \<noteq> newp"
        using that
        by (auto simp add: w5_def wm_def merged_moved_def after_mkdir_keeps newp_def sub_def)
      ultimately show ?thesis using l by simp
    qed
    have r5: "fs (snd R) (Join sub (d_name f)) = fs wm (Join din (d_name f)) \<and>
                  (din \<noteq> sub \<longrightarrow> fs (snd R) (Join din (d_name f)) = None)"
      if "distinct (map d_name files)" "f \<in> set files" "\<not> d_is_dir f"
        "\<not> rename_fails env (Join din (d_name f)) (Join sub (d_name f))"
        "fs wm (Join din (d_name f)) \<noteq> None" for f
      using archive_files_moves [OF that(1-4), of w5] that(5)
      by (simp add: R logf_def f5)
    have r6: "Logged (WarnFailedToArchive (Join din (d_name f))) \<in> set (trace (snd R)) \<and>
               fs (snd R) (Join din (d_name f)) = None"
      if f: "f \<in> set files" "\<not> d_is_dir f" and n: "fs wm (Join din (d_name f)) = None" for f
    proof -
      from n have n5: "fs w5 (Join din (d_name f)) = None" by (simp add: f5)
      from archive_files_missing_warns [OF f n5, of env sub]
        archive_files_missing_stays [OF n5, of env sub files]
      show ?thesis by (simp add: R logf_def)
    qed
    have c2: "merged \<noteq> newp \<longrightarrow> fs wm merged = None"
      using m2 by (rule impI)
    have c4: "(\<forall>f\<in>set files. d_name f \<noteq> Base merged) \<longrightarrow>
             fs (snd R) newp = after_mkdir sub w merged"
      using r4 by (rule impI)
    have c3: "\<forall>f\<in>set files.
             \<not> d_is_dir f \<and> rename_fails env (Join din (d_name f)) (Join sub (d_name f)) \<longrightarrow>
               Logged (WarnFailedToArchive (Join din (d_name f))) \<in> set (trace (snd R)) \<and>
               (fs w (Join din (d_name f)) \<noteq> None \<and> Join din (d_name f) \<noteq> merged \<and>
                Join din (d_name f) \<noteq> newp \<longrightarrow>
                  fs (snd R) (Join din (d_name f)) = fs w (Join din (d_name f)))"
      by (intro ballI impI, elim conjE, rule r3)
    have c6: "\<forall>f\<in>set files.
             \<not> d_is_dir f \<and> fs wm (Join din (d_name f)) = None \<longrightarrow>
               Logged (WarnFailedToArchive (Join din (d_name f))) \<in> set (trace (snd R)) \<and>
               fs (snd R) (Join din (d_name f)) = None"
      by (intro ballI impI, elim conjE, rule r6)
    have c5: "distinct (map d_name files) \<longrightarrow>
             (\<forall>f\<in>set files.
                \<not> d_is_dir f \<and> \<not> rename_fails env (Join din (d_name f)) (Join sub (d_name f)) \<and>
                fs wm (Join din (d_name f)) \<noteq> None \<longrightarrow>
                  fs (snd R) (Join sub (d_name f)) = fs wm (Join din (d_name f)) \<and>
                  (din \<noteq> sub \<longrightarrow> fs (snd R) (Join din (d_name f)) = None))"
      by (intro ballI impI, elim conjE, rule r5)
    show ?thesis
      by (rule conjI r1 r1' m1 c2 r2 c4 c3 c6 c5)+
  qed
  have A: "rename_fails env merged newp \<or> after_mkdir sub w merged = None \<longrightarrow>
       fst R = Some FailedToArchiveMergedFile \<and>
       renames (trace (snd R)) = renames (trace w) @ [(merged, newp, False)] \<and>
       fs (snd R) = after_mkdir sub w"
    using a by (rule impI)
  note B = b [unfolded w5_def]
  show ?thesis
    unfolding R_def [symmetric] sub_def [symmetric] newp_def [symmetric] wm_def [symmetric]
    by (rule conjI [OF A], rule impI, rule allI, rule impI, erule conjE, rule B)
qed


theorem C6_witness:
  "\<not> mkdir_fails frozen (archive_subdir frozen [''arch'']) \<and>
   rename_fails frozen [''out'', ''extract_20250309.csv'']
     (Join (archive_subdir frozen [''arch'']) (Base [''out'', ''extract_20250309.csv''])) \<and>
   fst (archiveAndCleanup frozen [''arch''] [''out'', ''extract_20250309.csv''] [''in''] disk1) =
     Some FailedToArchiveMergedFile \<and>
   \<not> mkdir_fails (calm [aapl, msft]) (archive_subdir (calm [aapl, msft]) [''arch'']) \<and>
   after_mkdir (archive_subdir (calm [aapl, msft]) [''arch'']) disk0
      [''out'', ''extract_20250309.csv''] = None \<and>
   fst (archiveAndCleanup (calm [aapl, msft]) [''arch''] [''out'', ''extract_20250309.csv'']
          [''in''] disk0) = Some FailedToArchiveMergedFile \<and>
   \<not> mkdir_fails stubborn (archive_subdir stubborn [''arch'']) \<and>
   \<not> rename_fails stubborn [''out'', ''extract_20250309.csv'']
     (Join (archive_subdir stubborn [''arch'']) (Base [''out'', ''extract_20250309.csv''])) \<and>
   rename_fails stubborn (Join [''in''] ''AAPL.csv'')
     (Join (archive_subdir stubborn [''arch'']) ''AAPL.csv'') \<and>
   \<not> rename_fails stubborn (Join [''in''] ''MSFT.CSV'')
     (Join (archive_subdir stubborn [''arch'']) ''MSFT.CSV'') \<and>
   fst (archiveAndCleanup stubborn [''arch''] [''out'', ''extract_20250309.csv''] [''in''] disk1) =
     None \<and>
   fs (snd (archiveAndCleanup stubborn [''arch''] [''out'', ''extract_20250309.csv''] [''in''] disk1))
      [''arch'', ''archive_20250309_140559'', ''extract_20250309.csv''] =
     Some (File [[''date'', ''price'', ''tick_nm''], [''2020-01-01'', ''100'', ''AAPL''],
                 [''2020-01-02'', ''200'', ''MSFT'']]) \<and>
   fs (snd (archiveAndCleanup stubborn [''arch''] [''out'', ''extract_20250309.csv''] [''in''] disk1))
      [''arch'', ''archive_20250309_140559'', ''MSFT.CSV''] =
     Some (File [[''date'', ''price''], [''2020-01-02'', ''200'']]) \<and>
   fs (snd (archiveAndCleanup stubborn [''arch''] [''out'', ''extract_20250309.csv''] [''in''] disk1))
      [''in'', ''MSFT.CSV''] = None \<and>
   Logged (WarnFailedToArchive [''in'', ''AAPL.csv'']) \<in>
     set (trace (snd (archiveAndCleanup stubborn [''arch'']
                        [''out'', ''extract_20250309.csv''] [''in''] disk1))) \<and>
   fs (snd (archiveAndCleanup stubborn [''arch''] [''out'', ''extract_20250309.csv''] [''in''] disk1))
      [''in'', ''AAPL.csv''] = Some (File [[''date'', ''price''], [''2020-01-01'', ''100'']]) \<and>
   readdir_yield (calm [aapl, msft, garbled]) =
     Some [\<lparr>d_name = ''AAPL.csv'', d_is_dir = False\<rparr>, \<lparr>d_name = ''MSFT.CSV'', d_is_dir = False\<rparr>,
           \<lparr>d_name = ''bad.csv'', d_is_dir = False\<rparr>] \<and>
   fs (merged_moved (calm [aapl, msft, garbled]) [''arch''] [''out'', ''extract_20250309.csv'']
         disk1) [''in'', ''bad.csv''] = None \<and>
   fst (archiveAndCleanup (calm [aapl, msft, garbled]) [''arch'']
          [''out'', ''extract_20250309.csv''] [''in''] disk1) = None \<and>
   Logged (WarnFailedToArchive [''in'', ''bad.csv'']) \<in>
     set (trace (snd (archiveAndCleanup (calm [aapl, msft, garbled]) [''arch'']
                        [''out'', ''extract_20250309.csv''] [''in''] disk1))) \<and>
   fs (snd (archiveAndCleanup (calm [aapl, msft, garbled]) [''arch'']
              [''out'', ''extract_20250309.csv''] [''in''] disk1)) [''in'', ''bad.csv''] = None"
proof -
  define merged where "merged = [''out'', ''extract_20250309.csv'']"
  define sub where "sub = [''arch'', ''archive_20250309_140559'']"
  define files where "files = [\<lparr>d_name = ''AAPL.csv'', d_is_dir = False\<rparr>,
                               \<lparr>d_name = ''MSFT.CSV'', d_is_dir = False\<rparr>]"
  have subs: "archive_subdir frozen [''arch''] = sub" "archive_subdir stubborn [''arch''] = sub"
    "archive_subdir (calm [aapl, msft]) [''arch''] = sub"
    unfolding sub_def by code_simp+
  have base: "Base merged = ''extract_20250309.csv''"
    by (simp add: merged_def Base_def)
  have fm: "\<not> mkdir_fails frozen (archive_subdir frozen [''arch''])"
    by (simp add: frozen_def calm_def)
  have fr: "rename_fails frozen merged (Join (archive_subdir frozen [''arch'']) (Base merged))"
    by (simp add: frozen_def)
  have cm: "\<not> mkdir_fails (calm [aapl, msft]) (archive_subdir (calm [aapl, msft]) [''arch''])"
    by (simp add: calm_def)
  have cn: "after_mkdir (archive_subdir (calm [aapl, msft]) [''arch'']) disk0 merged = None"
    unfolding subs sub_def merged_def by code_simp
  have sm: "\<not> mkdir_fails stubborn (archive_subdir stubborn [''arch''])"
    by (simp add: stubborn_def calm_def)
  have sr: "\<not> rename_fails stubborn merged
              (Join (archive_subdir stubborn [''arch'']) (Base merged))"
    by (simp add: stubborn_def merged_def)
  have ex: "after_mkdir (archive_subdir stubborn [''arch'']) disk1 merged =
              Some (File [[''date'', ''price'', ''tick_nm''], [''2020-01-01'', ''100'', ''AAPL''],
                          [''2020-01-02'', ''200'', ''MSFT'']])"
    unfolding subs sub_def merged_def by code_simp
  have rd: "readdir_yield stubborn = Some files"
    by (simp add: stubborn_def calm_def aapl_def msft_def files_def)
  have af: "rename_fails stubborn (Join [''in''] ''AAPL.csv'')
              (Join (archive_subdir stubborn [''arch'']) ''AAPL.csv'')"
    by (simp add: stubborn_def Join_def)
  have mf: "\<not> rename_fails stubborn (Join [''in''] ''MSFT.CSV'')
              (Join (archive_subdir stubborn [''arch'']) ''MSFT.CSV'')"
    by (simp add: stubborn_def Join_def)
  have ap: "fs disk1 [''in'', ''AAPL.csv''] =
              Some (File [[''date'', ''price''], [''2020-01-01'', ''100'']])"
    by code_simp
  have mp: "fs (merged_moved stubborn [''arch''] [''out'', ''extract_20250309.csv''] disk1)
              [''in'', ''MSFT.CSV''] =
            Some (File [[''date'', ''price''], [''2020-01-02'', ''200'']])"
    by code_simp
  have dn: "distinct (map d_name files)" "\<forall>f\<in>set files. d_name f \<noteq> Base merged"
    by (simp_all add: files_def base)
  from C6_archive_order_and_failures [OF fm, of merged disk1 "[''in'']"] fr
  have a: "fst (archiveAndCleanup frozen [''arch''] merged [''in''] disk1) =
             Some FailedToArchiveMergedFile"
    by blast
  from C6_archive_order_and_failures [OF cm, of merged disk0 "[''in'']"] cn
  have a': "fst (archiveAndCleanup (calm [aapl, msft]) [''arch''] merged [''in''] disk0) =
             Some FailedToArchiveMergedFile"
    by blast
  define R where "R = archiveAndCleanup stubborn [''arch''] merged [''in''] disk1"
  define wm where "wm = merged_moved stubborn [''arch''] merged disk1"
  from ex have ex': "after_mkdir (archive_subdir stubborn [''arch'']) disk1 merged \<noteq> None"
    by simp
  from C6_archive_order_and_failures [OF sm, of merged disk1 "[''in'']"] sr ex' rd
  have b: "fst R = None"
    and c: "(\<forall>f\<in>set files. d_name f \<noteq> Base merged) \<longrightarrow>
             fs (snd R) (Join (archive_subdir stubborn [''arch'']) (Base merged)) =
               after_mkdir (archive_subdir stubborn [''arch'']) disk1 merged"
    and d: "\<forall>f\<in>set files.
             \<not> d_is_dir f \<and>
             rename_fails stubborn (Join [''in''] (d_name f))
                (Join (archive_subdir stubborn [''arch'']) (d_name f)) \<longrightarrow>
               Logged (WarnFailedToArchive (Join [''in''] (d_name f))) \<in> set (trace (snd R)) \<and>
               (fs disk1 (Join [''in''] (d_name f)) \<noteq> None \<and> Join [''in''] (d_name f) \<noteq> merged \<and>
                Join [''in''] (d_name f) \<noteq> Join (archive_subdir stubborn [''arch'']) (Base merged) \<longrightarrow>
                  fs (snd R) (Join [''in''] (d_name f)) = fs disk1 (Join [''in''] (d_name f)))"
    and e: "distinct (map d_name files) \<longrightarrow>
             (\<forall>f\<in>set files.
                \<not> d_is_dir f \<and>
                \<not> rename_fails stubborn (Join [''in''] (d_name f))
                     (Join (archive_subdir stubborn [''arch'']) (d_name f)) \<and>
                fs wm (Join [''in''] (d_name f)) \<noteq> None \<longrightarrow>
                  fs (snd R) (Join (archive_subdir stubborn [''arch'']) (d_name f)) =
                    fs wm (Join [''in''] (d_name f)) \<and>
                  ([''in''] \<noteq> archive_subdir stubborn [''arch''] \<longrightarrow>
                     fs (snd R) (Join [''in''] (d_name f)) = None))"
    unfolding R_def wm_def by blast+
  from c dn(2) ex have c': "fs (snd R) [''arch'', ''archive_20250309_140559'', ''extract_20250309.csv''] =
     Some (File [[''date'', ''price'', ''tick_nm''], [''2020-01-01'', ''100'', ''AAPL''],
                 [''2020-01-02'', ''200'', ''MSFT'']])"
    unfolding subs base by (simp add: Join_def sub_def)
  from d af ap have d': "Logged (WarnFailedToArchive [''in'', ''AAPL.csv'']) \<in> set (trace (snd R))"
    and d'': "fs (snd R) [''in'', ''AAPL.csv''] =
                Some (File [[''date'', ''price''], [''2020-01-01'', ''100'']])"
    unfolding subs base by (simp_all add: files_def Join_def merged_def sub_def)
  from e dn(1) mf mp have e': "fs (snd R) [''arch'', ''archive_20250309_140559'', ''MSFT.CSV''] =
     Some (File [[''date'', ''price''], [''2020-01-02'', ''200'']])"
    and e'': "fs (snd R) [''in'', ''MSFT.CSV''] = None"
    unfolding subs base wm_def merged_def by (simp_all add: files_def Join_def sub_def)
  define env3 where "env3 = calm [aapl, msft, garbled]"
  define files3 where "files3 = [\<lparr>d_name = ''AAPL.csv'', d_is_dir = False\<rparr>,
                                 \<lparr>d_name = ''MSFT.CSV'', d_is_dir = False\<rparr>,
                                 \<lparr>d_name = ''bad.csv'', d_is_dir = False\<rparr>]"
  have gm: "\<not> mkdir_fails env3 (archive_subdir env3 [''arch''])"
    by (simp add: env3_def calm_def)
  have gr: "\<not> rename_fails env3 merged (Join (archive_subdir env3 [''arch'']) (Base merged))"
    by (simp add: env3_def calm_def)
  have gs: "archive_subdir env3 [''arch''] = sub"
    unfolding env3_def sub_def by code_simp
  have gx: "after_mkdir (archive_subdir env3 [''arch'']) disk1 merged \<noteq> None"
    using ex unfolding gs subs by simp
  have gd: "readdir_yield env3 = Some files3"
    by (simp add: env3_def calm_def aapl_def msft_def garbled_def files3_def)
  have gn: "fs (merged_moved env3 [''arch''] merged disk1) [''in'', ''bad.csv''] = None"
    unfolding env3_def merged_def by code_simp
  define R3 where "R3 = archiveAndCleanup env3 [''arch''] merged [''in''] disk1"
  from C6_archive_order_and_failures [OF gm, of merged disk1 "[''in'']"] gr gx gd
  have g: "fst R3 = None"
    and h: "\<forall>f\<in>set files3.
             \<not> d_is_dir f \<and>
             fs (merged_moved env3 [''arch''] merged disk1) (Join [''in''] (d_name f)) = None \<longrightarrow>
               Logged (WarnFailedToArchive (Join [''in''] (d_name f))) \<in> set (trace (snd R3)) \<and>
               fs (snd R3) (Join [''in''] (d_name f)) = None"
    unfolding R3_def by blast+
  from h gn have h': "Logged (WarnFailedToArchive [''in'', ''bad.csv'']) \<in> set (trace (snd R3))"
    and h'': "fs (snd R3) [''in'', ''bad.csv''] = None"
    by (simp_all add: files3_def Join_def)
  from fm fr a cm cn a' sm sr af mf b c' e' e'' d' d'' gd gn g h' h'' show ?thesis
    unfolding R_def R3_def merged_def env3_def files3_def by blast
qed




text \<open>
  Claim C4 at the failing input: one small file, and a disk that refuses the bytes at the
  final flush. Every \<^verbatim>\<open>writer.Write\<close> call succeeds, the flush fails, and \<open>processFiles\<close>
  returns the path and no error; the file is empty, and \<open>main\<close> goes on to archive it.
\<close>

theorem C4_flush_error_is_swallowed:
  "flush_fails disk_full \<and>
   fst (processFiles disk_full [''in''] [''out''] disk0) = Inr [''out'', ''extract_20250309.csv''] \<and>
   row_writes (trace (snd (processFiles disk_full [''in''] [''out''] disk0))) =
     [[''2020-01-01'', ''100'', ''AAPL'']] \<and>
   Ev_Flush False \<in> set (trace (snd (processFiles disk_full [''in''] [''out''] disk0))) \<and>
   fs (snd (processFiles disk_full [''in''] [''out''] disk0)) [''out'', ''extract_20250309.csv''] =
     Some (File []) \<and>
   fst (main disk_full [''in''] [''out''] [''arch''] disk0) = Completed"
proof -
  have a: "flush_fails disk_full" by (simp add: disk_full_def)
  have b: "fst (processFiles disk_full [''in''] [''out''] disk0) =
             Inr [''out'', ''extract_20250309.csv'']"
    by code_simp
  have c: "row_writes (trace (snd (processFiles disk_full [''in''] [''out''] disk0))) =
     [[''2020-01-01'', ''100'', ''AAPL'']]"
    by code_simp
  have d: "Ev_Flush False \<in> set (trace (snd (processFiles disk_full [''in''] [''out''] disk0)))"
    by code_simp
  have e: "fs (snd (processFiles disk_full [''in''] [''out''] disk0))
             [''out'', ''extract_20250309.csv''] = Some (File [])"
    by code_simp
  have f: "fst (main disk_full [''in''] [''out''] [''arch''] disk0) = Completed"
    by code_simp
  from a b c d e f show ?thesis by blast
qed




end
